theory Spec2Isabelle
  imports Complex_Main "HOL-Library.Signed_Division"
begin

section \<open>Numbers of the source\<close>

text \<open>
  The source (\<^verbatim>\<open>src/app/zoom-experience.tsx\<close>) computes with JavaScript numbers. Angles,
  coordinates and rates are modelled as \<^typ>\<open>real\<close>, indices as \<^typ>\<open>int\<close>; rounding
  errors of IEEE doubles are not modelled. Real arithmetic has no \<^verbatim>\<open>NaN\<close> and no
  \<^verbatim>\<open>Infinity\<close>: wherever the source divides by a value that can be zero, the model
  returns a failure value instead of a number.
\<close>

text \<open>\<^verbatim>\<open>Math.trunc\<close>, the rounding that the remainder operator \<^verbatim>\<open>%\<close> uses.\<close>

definition js_trunc :: "real \<Rightarrow> int" where
  "js_trunc x = (if 0 \<le> x then \<lfloor>x\<rfloor> else \<lceil>x\<rceil>)"

text \<open>
  \<^verbatim>\<open>a % b\<close> on numbers: the remainder has the sign of the dividend. Every use in the
  source has the divisor \<^verbatim>\<open>2 * Math.PI\<close>.
\<close>

definition js_rem :: "real \<Rightarrow> real \<Rightarrow> real" where
  "js_rem a b = a - b * of_int (js_trunc (a / b))"

text \<open>\<^verbatim>\<open>Math.round\<close>: the nearest integer, halves towards plus infinity.\<close>

definition js_round :: "real \<Rightarrow> int" where
  "js_round x = \<lfloor>x + 1 / 2\<rfloor>"

text \<open>\<^verbatim>\<open>((x % (2 * Math.PI)) + 2 * Math.PI) % (2 * Math.PI)\<close>, written out four times in the source.\<close>

definition normalize_angle :: "real \<Rightarrow> real" where
  "normalize_angle x = js_rem (js_rem x (2 * pi) + 2 * pi) (2 * pi)"

text \<open>
  \<^verbatim>\<open>a % n\<close> on an integer-valued number and a length: \<^verbatim>\<open>NaN\<close> (here \<open>None\<close>) when the
  length is zero.
\<close>

definition js_rem_int :: "int \<Rightarrow> int \<Rightarrow> int option" where
  "js_rem_int a n = (if n = 0 then None else Some (a smod n))"

text \<open>\<^verbatim>\<open>((i % n) + n) % n\<close>.\<close>

definition wrap_index :: "int \<Rightarrow> int \<Rightarrow> int option" where
  "wrap_index i n = (case js_rem_int i n of None \<Rightarrow> None | Some r \<Rightarrow> js_rem_int (r + n) n)"

text \<open>\<^verbatim>\<open>a === b\<close> on two numbers that may be \<^verbatim>\<open>NaN\<close>: \<^verbatim>\<open>NaN\<close> equals nothing.\<close>

definition js_eq :: "int option \<Rightarrow> int option \<Rightarrow> bool" where
  "js_eq a b = (case (a, b) of (Some x, Some y) \<Rightarrow> x = y | _ \<Rightarrow> False)"

section \<open>Constants\<close>

definition ROTATION_EASING :: real where
  "ROTATION_EASING = 12 / 100"

definition CLICKS_PER_FULL_CIRCLE :: nat where
  "CLICKS_PER_FULL_CIRCLE = 24"

definition MIN_PLAYBACK_RATE :: real where
  "MIN_PLAYBACK_RATE = 1 / 2"

definition QUADRATIC_A :: real where
  "QUADRATIC_A = 1"

definition QUADRATIC_B :: real where
  "QUADRATIC_B = 1 / 2"

text \<open>\<^verbatim>\<open>anglePerItem\<close> (lines 301-304), from \<^verbatim>\<open>imageSets.length\<close>.\<close>

definition anglePerItem :: "nat \<Rightarrow> real" where
  "anglePerItem n = (if n > 0 then (2 * pi) / real n else 0)"

text \<open>\<^verbatim>\<open>anglePerClick\<close> (lines 306-309).\<close>

definition anglePerClick :: real where
  "anglePerClick = (2 * pi) / real CLICKS_PER_FULL_CIRCLE"

section \<open>Selected index\<close>

text \<open>
  \<^verbatim>\<open>selectedIndex\<close> (lines 592-604) and \<^verbatim>\<open>finalSelectedIndex\<close> (lines 1033-1042)
  have the same body, over \<^verbatim>\<open>ringRotation\<close> and \<^verbatim>\<open>targetRotation\<close>. The division by
  \<^verbatim>\<open>anglePerItem\<close> is reached only behind the guard on the length; the model returns
  \<open>None\<close> where the source would produce a non-finite number or \<^verbatim>\<open>NaN\<close>.
\<close>

definition js_div :: "real \<Rightarrow> real \<Rightarrow> real option" where
  "js_div a b = (if b = 0 then None else Some (a / b))"

definition index_of_rotation :: "nat \<Rightarrow> real \<Rightarrow> int option" where
  "index_of_rotation n rotation =
     (if n = 0 then Some 0
      else case js_div (normalize_angle rotation) (anglePerItem n) of
             None \<Rightarrow> None
           | Some q \<Rightarrow> wrap_index (js_round q) (int n))"

definition selectedIndex :: "nat \<Rightarrow> real \<Rightarrow> int option" where
  "selectedIndex n ringRotation = index_of_rotation n ringRotation"

definition finalSelectedIndex :: "nat \<Rightarrow> real \<Rightarrow> int option" where
  "finalSelectedIndex n targetRotation = index_of_rotation n targetRotation"

section \<open>Tick synchronisation and the animation loop\<close>








text \<open>The rotation update of one animation frame (lines 609-614).\<close>

definition ease :: "real \<Rightarrow> real \<Rightarrow> real" where
  "ease targetRotation prev =
     (let diff = targetRotation - prev
      in if \<bar>diff\<bar> < 1 / 1000 then targetRotation else prev + diff * ROTATION_EASING)"




section \<open>Playback rate and audio initialisation\<close>

text \<open>\<^verbatim>\<open>zoomRange: { min: number; max: number }\<close>.\<close>

record zoom_range =
  zmin :: real
  zmax :: real

text \<open>
  The refs and state of the audio engine. A decoded buffer is represented by the URL it
  was fetched from; the music voice \<^verbatim>\<open>bgMusicRef\<close> by its \<^verbatim>\<open>playbackRate.value\<close>.
\<close>

record audio_state =
  audioReady :: bool
  audioContextRef :: bool
  tickBufferRef :: "string option"
  bgMusicBufferRef :: "string option"
  bgMusicRef :: "real option"
  isMutedRef :: bool
  zoomRangeRef :: "zoom_range option"

text \<open>The normalisation of the zoom exponent (lines 508-511).\<close>

definition normalized_zoom :: "real \<Rightarrow> zoom_range \<Rightarrow> real" where
  "normalized_zoom zoomExponent zoomRange =
     (if zmax zoomRange = zmin zoomRange then 1 / 2
      else (zoomExponent - zmin zoomRange) / (zmax zoomRange - zmin zoomRange))"

text \<open>The quadratic of lines 516-519.\<close>

definition playback_rate :: "real \<Rightarrow> real" where
  "playback_rate normalized =
     QUADRATIC_A * normalized * normalized + QUADRATIC_B * normalized + MIN_PLAYBACK_RATE"

text \<open>\<^verbatim>\<open>updatePlaybackRate\<close> (lines 501-525).\<close>

definition updatePlaybackRate :: "real \<Rightarrow> zoom_range \<Rightarrow> audio_state \<Rightarrow> audio_state" where
  "updatePlaybackRate zoomExponent zoomRange s =
     (let s1 = s\<lparr>zoomRangeRef := Some zoomRange\<rparr>
      in if bgMusicRef s1 = None \<or> isMutedRef s1 then s1
         else
           let normalized = normalized_zoom zoomExponent zoomRange;
               playbackRate = playback_rate normalized
           in s1\<lparr>bgMusicRef := Some playbackRate\<rparr>)"

text \<open>
  What the browser does during \<^verbatim>\<open>initializeAudio\<close>: whether \<^verbatim>\<open>new AudioContext()\<close>
  returns, and for each URL whether \<^verbatim>\<open>fetch\<close>, \<^verbatim>\<open>arrayBuffer\<close> and
  \<^verbatim>\<open>decodeAudioData\<close> all succeed (\<open>Some\<close> buffer) or one of them throws (\<open>None\<close>).
\<close>

record audio_env =
  context_ok :: bool
  load_asset :: "string \<Rightarrow> string option"

text \<open>
  The body of the outer \<^verbatim>\<open>try\<close> of \<^verbatim>\<open>initializeAudio\<close> (lines 338-365). \<open>Inl s\<close> is an
  exception thrown in state \<open>s\<close>, to be caught by the outer \<^verbatim>\<open>catch\<close>; the inner
  \<^verbatim>\<open>try\<close> around the background music catches its own exception.
\<close>

definition initializeAudio_try :: "audio_env \<Rightarrow> audio_state \<Rightarrow> audio_state + audio_state" where
  "initializeAudio_try env s =
     (case (if \<not> audioContextRef s
            then (if context_ok env then Inr (s\<lparr>audioContextRef := True\<rparr>) else Inl s)
            else Inr s) of
        Inl e \<Rightarrow> Inl e
      | Inr s1 \<Rightarrow>
          (case (if tickBufferRef s1 = None \<and> audioContextRef s1
                 then (case load_asset env ''/tick.mp3'' of
                         None \<Rightarrow> Inl s1
                       | Some b \<Rightarrow> Inr (s1\<lparr>tickBufferRef := Some b\<rparr>))
                 else Inr s1) of
             Inl e \<Rightarrow> Inl e
           | Inr s2 \<Rightarrow>
               (let s3 = (if bgMusicBufferRef s2 = None \<and> audioContextRef s2
                          then (case load_asset env ''/bg.mp3'' of
                                  None \<Rightarrow> s2
                                | Some b \<Rightarrow> s2\<lparr>bgMusicBufferRef := Some b\<rparr>)
                          else s2)
                in Inr (s3\<lparr>audioReady := True\<rparr>))))"

text \<open>\<^verbatim>\<open>initializeAudio\<close> (lines 335-370).\<close>

definition initializeAudio :: "audio_env \<Rightarrow> audio_state \<Rightarrow> audio_state" where
  "initializeAudio env s =
     (if audioReady s then s
      else case initializeAudio_try env s of
             Inr s' \<Rightarrow> s'
           | Inl e \<Rightarrow> e\<lparr>audioReady := True\<rparr>)"

text \<open>The audio state when the component mounts (the \<^verbatim>\<open>useState\<close> and \<^verbatim>\<open>useRef\<close> initial values).\<close>

definition initial_audio :: audio_state where
  "initial_audio =
     \<lparr>audioReady = False, audioContextRef = False, tickBufferRef = None,
      bgMusicBufferRef = None, bgMusicRef = None, isMutedRef = False, zoomRangeRef = None\<rparr>"

section \<open>Gestures\<close>

text \<open>\<^verbatim>\<open>clickStartRef.current\<close>: \<^verbatim>\<open>{ x, y, index }\<close>.\<close>

record click_start =
  cs_x :: real
  cs_y :: real
  cs_index :: int

text \<open>
  The state and refs of the ring that the pointer handlers read and write.
  \<^verbatim>\<open>dragStartRef\<close> holds \<^verbatim>\<open>lastAngle\<close>.
\<close>

record ring_state =
  ringRotation :: real
  targetRotation :: real
  isDragging :: bool
  isHovered :: bool
  isSelectedCircleHovered :: bool
  showRingAfterStart :: bool
  dragStartRef :: "real option"
  dragStartIndexRef :: "int option"
  clickStartRef :: "click_start option"

text \<open>The ring when the component mounts (the \<^verbatim>\<open>useState\<close> and \<^verbatim>\<open>useRef\<close> initial values).\<close>

definition initial_ring :: ring_state where
  "initial_ring =
     \<lparr>ringRotation = 0, targetRotation = 0, isDragging = False, isHovered = False,
      isSelectedCircleHovered = False, showRingAfterStart = False, dragStartRef = None,
      dragStartIndexRef = None, clickStartRef = None\<rparr>"

text \<open>\<^verbatim>\<open>Math.atan2(y, x)\<close> on reals (signed zeros are not modelled).\<close>

definition js_atan2 :: "real \<Rightarrow> real \<Rightarrow> real" where
  "js_atan2 y x =
     (if 0 < x then arctan (y / x)
      else if x < 0 then (if 0 \<le> y then arctan (y / x) + pi else arctan (y / x) - pi)
      else if 0 < y then pi / 2
      else if y < 0 then - pi / 2
      else 0)"

text \<open>
  \<^verbatim>\<open>getPointerAngle\<close> (lines 640-646). \<open>centre\<close> is the centre of the bounding rectangle
  of \<^verbatim>\<open>ringRef.current\<close>, \<open>None\<close> when the ref is null.
\<close>

definition getPointerAngle :: "(real \<times> real) option \<Rightarrow> real \<Rightarrow> real \<Rightarrow> real" where
  "getPointerAngle centre clientX clientY =
     (case centre of
        None \<Rightarrow> 0
      | Some (centerX, centerY) \<Rightarrow> js_atan2 (clientY - centerY) (clientX - centerX))"

text \<open>\<^verbatim>\<open>isHovered || isSelectedCircleHovered || showRingAfterStart\<close>.\<close>

definition isDialVisible :: "ring_state \<Rightarrow> bool" where
  "isDialVisible r = (isHovered r \<or> isSelectedCircleHovered r \<or> showRingAfterStart r)"

text \<open>
  \<^verbatim>\<open>handlePointerDown\<close> (lines 704-743). \<open>idle\<close> is \<^verbatim>\<open>fadePhase === "idle"\<close> and
  \<open>selIdx\<close> the value of \<^verbatim>\<open>selectedIndex\<close> in the handler's closure.
\<close>

definition handlePointerDown ::
  "bool \<Rightarrow> bool \<Rightarrow> int \<Rightarrow> (real \<times> real) option \<Rightarrow> real \<Rightarrow> real \<Rightarrow> bool \<Rightarrow> int option
     \<Rightarrow> ring_state \<Rightarrow> ring_state" where
  "handlePointerDown audioStarted idle selIdx centre clientX clientY isSelectedButton buttonIndex r =
     (if \<not> audioStarted \<or> \<not> idle then r
      else if \<not> isSelectedButton \<and> \<not> isDialVisible r then r
      else
        let r1 = (if isSelectedButton then r\<lparr>showRingAfterStart := True, isHovered := True\<rparr> else r);
            r2 = (case buttonIndex of
                    None \<Rightarrow> r1
                  | Some i \<Rightarrow> r1\<lparr>clickStartRef := Some \<lparr>cs_x = clientX, cs_y = clientY, cs_index = i\<rparr>\<rparr>)
        in r2\<lparr>isDragging := True,
               dragStartRef := Some (getPointerAngle centre clientX clientY),
               dragStartIndexRef := Some selIdx\<rparr>)"

text \<open>\<^verbatim>\<open>handlePointerMove\<close> (lines 746-774).\<close>

definition handlePointerMove :: "(real \<times> real) option \<Rightarrow> real \<times> real \<Rightarrow> ring_state \<Rightarrow> ring_state" where
  "handlePointerMove centre e r =
     (case dragStartRef r of
        None \<Rightarrow> r
      | Some lastAngle \<Rightarrow>
          if \<not> isDragging r then r
          else
            let r1 = (case clickStartRef r of
                        None \<Rightarrow> r
                      | Some c \<Rightarrow>
                          let dx = fst e - cs_x c;
                              dy = snd e - cs_y c;
                              distance = sqrt (dx * dx + dy * dy)
                          in if distance > 5 then r\<lparr>clickStartRef := None\<rparr> else r);
                currentAngle = getPointerAngle centre (fst e) (snd e);
                delta0 = currentAngle - lastAngle;
                delta1 = (if delta0 > pi then delta0 - 2 * pi else delta0);
                delta = (if delta1 < - pi then delta1 + 2 * pi else delta1)
            in r1\<lparr>dragStartRef := Some currentAngle,
                   targetRotation := targetRotation r1 - delta\<rparr>)"

text \<open>The rotation delta of the click branch of \<^verbatim>\<open>handlePointerUp\<close> (lines 785-806).\<close>

definition click_diff :: "real \<Rightarrow> real \<Rightarrow> int \<Rightarrow> real" where
  "click_diff anglePerItem' targetRotation' clickedIndex =
     (let targetRotationForIndex = of_int clickedIndex * anglePerItem';
          currentNormalized = normalize_angle targetRotation';
          targetNormalized = normalize_angle targetRotationForIndex;
          diff0 = targetNormalized - currentNormalized;
          diff1 = (if diff0 > pi then diff0 - 2 * pi
                   else if diff0 < - pi then diff0 + 2 * pi
                   else diff0)
      in if \<bar>\<bar>diff1\<bar> - pi\<bar> < 1 / 1000 then pi else diff1)"

text \<open>
  \<^verbatim>\<open>handlePointerUp\<close> (lines 777-833), also the handler of pointer-cancel. The first
  argument is \<^verbatim>\<open>anglePerItem\<close> in the handler's closure.

  The click branch (lines 784-811) with the common tail (lines 819-821).
\<close>

definition click_release :: "real \<Rightarrow> click_start \<Rightarrow> ring_state \<Rightarrow> ring_state" where
  "click_release anglePerItem' c r =
     (let clickedIndex = cs_index c;
          diff = click_diff anglePerItem' (targetRotation r) clickedIndex;
          finalTarget = targetRotation r + diff
      in r\<lparr>targetRotation := finalTarget, isDragging := False,
            dragStartRef := None, clickStartRef := None\<rparr>)"

text \<open>
  The drag branch (lines 813-816) with the common tail. The source divides by
  \<^verbatim>\<open>anglePerItem\<close> without a guard: the result is \<open>None\<close> where \<^verbatim>\<open>targetRotation\<close>
  would become \<^verbatim>\<open>NaN\<close>.
\<close>

definition drag_release :: "real \<Rightarrow> ring_state \<Rightarrow> ring_state option" where
  "drag_release anglePerItem' r =
     (case js_div (targetRotation r) anglePerItem' of
        None \<Rightarrow> None
      | Some q \<Rightarrow>
          let nearestIndex = js_round q;
              snappedRotation = of_int nearestIndex * anglePerItem'
          in Some (r\<lparr>targetRotation := snappedRotation, isDragging := False,
                     dragStartRef := None, clickStartRef := None\<rparr>))"

definition handlePointerUp :: "real \<Rightarrow> ring_state \<Rightarrow> ring_state option" where
  "handlePointerUp anglePerItem' r =
     (if \<not> isDragging r then Some r
      else
        case (if isDialVisible r then clickStartRef r else None) of
          Some c \<Rightarrow> Some (click_release anglePerItem' c r)
        | None \<Rightarrow> drag_release anglePerItem' r)"

text \<open>The pointer-move events of one gesture, in order.\<close>

fun pointer_moves :: "(real \<times> real) option \<Rightarrow> (real \<times> real) list \<Rightarrow> ring_state \<Rightarrow> ring_state" where
  "pointer_moves centre [] r = r"
| "pointer_moves centre (e # es) r = pointer_moves centre es (handlePointerMove centre e r)"

text \<open>The displacement of a pointer position from the position recorded at pointer-down.\<close>

definition displacement :: "click_start \<Rightarrow> real \<times> real \<Rightarrow> real" where
  "displacement c e = sqrt ((fst e - cs_x c) * (fst e - cs_x c) + (snd e - cs_y c) * (snd e - cs_y c))"

section \<open>Transitions\<close>

text \<open>\<^verbatim>\<open>ImageSet\<close> (lines 12-15).\<close>

record image_set =
  name :: string
  images :: "string list"

datatype fade_phase = Idle | Loading | FadingToBlack | Holding | FadingOut

text \<open>The React state of the transition.\<close>

record fade_state =
  activeSet :: string
  pendingSet :: "string option"
  fadePhase :: fade_phase
  highlightSet :: string
  revealReady :: bool

text \<open>\<^verbatim>\<open>imageSets[i]\<close>: \<^verbatim>\<open>undefined\<close> outside the array.\<close>

definition image_set_at :: "image_set list \<Rightarrow> int \<Rightarrow> image_set option" where
  "image_set_at imageSets i =
     (if 0 \<le> i \<and> i < int (length imageSets) then Some (imageSets ! nat i) else None)"

text \<open>\<^verbatim>\<open>resolveInitialSet\<close> (lines 170-179); an empty \<^verbatim>\<open>initialSet\<close> is falsy.\<close>

definition resolveInitialSet :: "image_set list \<Rightarrow> string option \<Rightarrow> string" where
  "resolveInitialSet imageSets initialSet =
     (let first = (case imageSets of [] \<Rightarrow> [] | s # _ \<Rightarrow> name s)
      in case initialSet of
           None \<Rightarrow> first
         | Some wanted \<Rightarrow>
             if wanted = [] then first
             else (case find (\<lambda>s. name s = wanted) imageSets of
                     Some m \<Rightarrow> name m
                   | None \<Rightarrow> first))"

text \<open>\<^verbatim>\<open>startTransition\<close> (lines 1018-1030).\<close>

definition startTransition :: "string \<Rightarrow> 'a fade_state_scheme \<Rightarrow> 'a fade_state_scheme" where
  "startTransition target f =
     (if fadePhase f \<noteq> Idle \<or> target = activeSet f then f
      else f\<lparr>pendingSet := Some target, highlightSet := target,
             revealReady := False, fadePhase := Loading\<rparr>)"

text \<open>\<^verbatim>\<open>isRotationSettled\<close> (lines 1046-1052).\<close>

definition isRotationSettled :: "bool \<Rightarrow> real \<Rightarrow> real \<Rightarrow> bool" where
  "isRotationSettled isMobile targetRotation' ringRotation' =
     (let rotationSettleThreshold = (if isMobile then 2 / 100 else 1 / 100);
          diff = \<bar>targetRotation' - ringRotation'\<bar>;
          normalizedDiff = min diff (2 * pi - diff)
      in normalizedDiff < rotationSettleThreshold)"

text \<open>
  The effect that triggers transitions (lines 1056-1103). \<open>selIdx\<close>, \<open>finalIdx\<close> and
  \<open>settled\<close> are \<^verbatim>\<open>selectedIndex\<close>, \<^verbatim>\<open>finalSelectedIndex\<close> and \<^verbatim>\<open>isRotationSettled\<close>
  of the render the effect belongs to (\<open>None\<close> for an index is \<^verbatim>\<open>NaN\<close>, for which
  \<^verbatim>\<open>imageSets[NaN]\<close> is \<^verbatim>\<open>undefined\<close>).
\<close>

definition transition_trigger ::
  "image_set list \<Rightarrow> int option \<Rightarrow> int option \<Rightarrow> bool \<Rightarrow> ring_state \<times> fade_state
     \<Rightarrow> ring_state \<times> fade_state" where
  "transition_trigger imageSets selIdx finalIdx settled st =
     (let r = fst st; f = snd st; n = int (length imageSets)
      in if isDragging r then st
         else
           case dragStartIndexRef r of
             Some startIdx \<Rightarrow>
               if \<not> settled then st
               else
                 let normalizedStartIndex = wrap_index startIdx n;
                     normalizedFinalIndex = Option.bind finalIdx (\<lambda>i. wrap_index i n)
                 in if js_eq normalizedStartIndex normalizedFinalIndex
                    then (r\<lparr>dragStartIndexRef := None\<rparr>, f)
                    else (case Option.bind finalIdx (image_set_at imageSets) of
                            None \<Rightarrow> st
                          | Some selectedSet \<Rightarrow>
                              if name selectedSet \<noteq> highlightSet f
                              then (r\<lparr>dragStartIndexRef := None\<rparr>,
                                    startTransition (name selectedSet) f)
                              else st)
           | None \<Rightarrow>
               (case Option.bind selIdx (image_set_at imageSets) of
                  None \<Rightarrow> st
                | Some selectedSet \<Rightarrow>
                    if name selectedSet \<noteq> highlightSet f
                    then (r, startTransition (name selectedSet) f)
                    else st))"

text \<open>The same effect with the three values computed from the state of the render.\<close>

definition trigger_effect ::
  "image_set list \<Rightarrow> bool \<Rightarrow> ring_state \<times> fade_state \<Rightarrow> ring_state \<times> fade_state" where
  "trigger_effect imageSets isMobile st =
     (let r = fst st; n = length imageSets
      in transition_trigger imageSets
           (selectedIndex n (ringRotation r))
           (finalSelectedIndex n (targetRotation r))
           (isRotationSettled isMobile (targetRotation r) (ringRotation r)) st)"

text \<open>The update of \<^verbatim>\<open>ringRotation\<close> by one frame of \<^verbatim>\<open>animate\<close> (lines 609-618).\<close>

definition animate_ring :: "ring_state \<Rightarrow> ring_state" where
  "animate_ring r = r\<lparr>ringRotation := ease (targetRotation r) (ringRotation r)\<rparr>"

text \<open>The transition state of the first render (lines 181-187).\<close>

definition initial_fade :: "image_set list \<Rightarrow> string option \<Rightarrow> fade_state" where
  "initial_fade imageSets initialSet =
     \<lparr>activeSet = resolveInitialSet imageSets initialSet, pendingSet = None,
      fadePhase = Idle, highlightSet = resolveInitialSet imageSets initialSet,
      revealReady = False\<rparr>"

text \<open>
  The transition state together with what the browser holds for it: the phase that the
  pending \<^verbatim>\<open>window.setTimeout\<close> of the fade effect will set, and whether the promise of
  \<^verbatim>\<open>preloadImages\<close> is still to resolve.
\<close>

record machine = fade_state +
  fadeTimer :: "fade_phase option"
  preloadPending :: bool

text \<open>\<^verbatim>\<open>if (pendingSet)\<close>: null and the empty string are falsy.\<close>

definition truthy :: "string option \<Rightarrow> bool" where
  "truthy p = (case p of None \<Rightarrow> False | Some t \<Rightarrow> t \<noteq> [])"

text \<open>
  An effect reads the state of the render it belongs to (\<open>cur\<close>) and queues updates;
  \<open>acc\<close> is the state with the updates queued so far in this commit.

  The effect of lines 961-970 (dependencies: \<^verbatim>\<open>activeSet\<close>, \<^verbatim>\<open>imageSets\<close>).
\<close>

definition exists_effect :: "image_set list \<Rightarrow> string option \<Rightarrow> machine \<Rightarrow> machine \<Rightarrow> machine" where
  "exists_effect imageSets initialSet cur acc =
     (if imageSets = [] then acc
      else if \<not> list_ex (\<lambda>s. name s = activeSet cur) imageSets
           then acc\<lparr>activeSet := resolveInitialSet imageSets initialSet, fadePhase := Idle\<rparr>
           else acc)"

text \<open>
  The fade effect (lines 1105-1135; dependencies: \<^verbatim>\<open>fadePhase\<close>, \<^verbatim>\<open>pendingSet\<close>). Running
  it again first runs the cleanup of the previous run, which clears the timer.
\<close>

definition fade_effect :: "machine \<Rightarrow> machine \<Rightarrow> machine" where
  "fade_effect cur acc =
     (case fadePhase cur of
        FadingToBlack \<Rightarrow> acc\<lparr>fadeTimer := Some Holding\<rparr>
      | Holding \<Rightarrow>
          (case pendingSet cur of
             None \<Rightarrow> acc
           | Some p \<Rightarrow> if p = [] then acc else acc\<lparr>activeSet := p, pendingSet := None\<rparr>)
            \<lparr>fadeTimer := Some FadingOut\<rparr>
      | FadingOut \<Rightarrow> acc\<lparr>fadeTimer := Some Idle\<rparr>
      | _ \<Rightarrow> acc\<lparr>fadeTimer := None\<rparr>)"

text \<open>
  The preload effect (lines 1143-1159; dependencies: \<^verbatim>\<open>fadePhase\<close>, \<^verbatim>\<open>pendingSet\<close>,
  \<^verbatim>\<open>preloadImages\<close>). It also clears the three visibility flags of the dial, which belong
  to the ring state and play no part in the transition.
\<close>

definition preload_effect :: "machine \<Rightarrow> machine \<Rightarrow> machine" where
  "preload_effect cur acc =
     (if fadePhase cur = Loading \<and> truthy (pendingSet cur)
      then acc\<lparr>preloadPending := True\<rparr>
      else acc)"

text \<open>The effect of lines 1161-1163 (dependency: \<^verbatim>\<open>activeSet\<close>).\<close>

definition highlight_effect :: "machine \<Rightarrow> machine \<Rightarrow> machine" where
  "highlight_effect cur acc = acc\<lparr>highlightSet := activeSet cur\<rparr>"

text \<open>
  One commit: the effects whose dependencies differ between the previous render \<open>old\<close>
  and the render \<open>cur\<close> run in source order; the result is the state of the next render.
  (\<^verbatim>\<open>imageSets\<close> and \<^verbatim>\<open>initialSet\<close> are props that do not change.)
\<close>

definition commit :: "image_set list \<Rightarrow> string option \<Rightarrow> machine \<Rightarrow> machine \<Rightarrow> machine" where
  "commit imageSets initialSet old cur =
     (let a1 = (if activeSet old \<noteq> activeSet cur
                then exists_effect imageSets initialSet cur cur else cur);
          fade_deps = (fadePhase old \<noteq> fadePhase cur \<or> pendingSet old \<noteq> pendingSet cur);
          a2 = (if fade_deps then fade_effect cur a1 else a1);
          a3 = (if fade_deps then preload_effect cur a2 else a2)
      in if activeSet old \<noteq> activeSet cur then highlight_effect cur a3 else a3)"

text \<open>
  What happens to the transition from outside the effects: the trigger effect calls
  \<^verbatim>\<open>startTransition\<close> with the name of a set of \<^verbatim>\<open>imageSets\<close>, the promise of
  \<^verbatim>\<open>preloadImages\<close> resolves (lines 1154-1157), the pending timer fires (lines 1108-1110,
  1120-1122, 1128-1131), the canvas reports ready (lines 1137-1140).
\<close>

datatype event = StartTransition int | PreloadDone | Timeout | CanvasReady

definition handle_event :: "image_set list \<Rightarrow> event \<Rightarrow> machine \<Rightarrow> machine" where
  "handle_event imageSets e m =
     (case e of
        StartTransition i \<Rightarrow>
          (case image_set_at imageSets i of
             None \<Rightarrow> m
           | Some selectedSet \<Rightarrow> startTransition (name selectedSet) m)
      | PreloadDone \<Rightarrow>
          if preloadPending m
          then m\<lparr>revealReady := True, fadePhase := FadingToBlack, preloadPending := False\<rparr>
          else m
      | Timeout \<Rightarrow>
          (case fadeTimer m of
             None \<Rightarrow> m
           | Some Idle \<Rightarrow> m\<lparr>fadePhase := Idle, revealReady := False, fadeTimer := None\<rparr>
           | Some p \<Rightarrow> m\<lparr>fadePhase := p, fadeTimer := None\<rparr>)
      | CanvasReady \<Rightarrow> m\<lparr>revealReady := True\<rparr>)"

text \<open>The state of the first render (the \<^verbatim>\<open>useState\<close> initial values, lines 181-187).\<close>

definition initial_machine :: "image_set list \<Rightarrow> string option \<Rightarrow> machine" where
  "initial_machine imageSets initialSet =
     \<lparr>activeSet = resolveInitialSet imageSets initialSet, pendingSet = None,
      fadePhase = Idle, highlightSet = resolveInitialSet imageSets initialSet,
      revealReady = False, fadeTimer = None, preloadPending = False\<rparr>"

text \<open>
  The renders that can occur, each with the render before it. An event is handled only
  when the effects of the last commit have changed nothing more.
\<close>

inductive reachable :: "image_set list \<Rightarrow> string option \<Rightarrow> machine \<times> machine \<Rightarrow> bool"
  for imageSets :: "image_set list" and initialSet :: "string option" where
  mount: "reachable imageSets initialSet
            (initial_machine imageSets initialSet, initial_machine imageSets initialSet)"
| effects: "reachable imageSets initialSet (old, cur) \<Longrightarrow>
            commit imageSets initialSet old cur \<noteq> cur \<Longrightarrow>
            reachable imageSets initialSet (cur, commit imageSets initialSet old cur)"
| event: "reachable imageSets initialSet (old, cur) \<Longrightarrow>
          commit imageSets initialSet old cur = cur \<Longrightarrow>
          reachable imageSets initialSet (cur, handle_event imageSets e cur)"

section \<open>Invariants and example data\<close>

text \<open>A name is the name of one of the image sets.\<close>

definition known :: "image_set list \<Rightarrow> string \<Rightarrow> bool" where
  "known imageSets s = list_ex (\<lambda>x. name x = s) imageSets"

text \<open>What holds of every render of the transition machine.\<close>

definition aux_inv :: "image_set list \<Rightarrow> machine \<Rightarrow> bool" where
  "aux_inv imageSets c =
     ((imageSets \<noteq> [] \<longrightarrow> known imageSets (activeSet c))
      \<and> (\<forall>p. pendingSet c = Some p \<longrightarrow> known imageSets p)
      \<and> (\<forall>t. fadeTimer c = Some t \<longrightarrow>
            (t = Holding \<and> fadePhase c = FadingToBlack)
          \<or> (t = FadingOut \<and> fadePhase c = Holding \<and> pendingSet c = None)
          \<or> (t = Idle \<and> fadePhase c = FadingOut))
      \<and> (pendingSet c = Some [] \<longrightarrow> fadePhase c = Loading)
      \<and> (preloadPending c \<longrightarrow> fadePhase c = Loading \<and> truthy (pendingSet c))
      \<and> (pendingSet c \<noteq> None \<longrightarrow> fadePhase c = Loading \<or> fadePhase c = FadingToBlack \<or> fadePhase c = Holding))"

text \<open>What holds between a render and the render before it.\<close>

definition step_inv :: "machine \<Rightarrow> machine \<Rightarrow> bool" where
  "step_inv old cur =
     ((\<forall>p. pendingSet old = Some p \<and> pendingSet cur = None \<longrightarrow>
          fadePhase old = Holding \<and> fadePhase cur = Holding \<and> activeSet cur = p)
      \<and> (activeSet cur \<noteq> activeSet old \<longrightarrow>
          pendingSet old = Some (activeSet cur) \<and> pendingSet cur = None \<and> fadePhase old = Holding)
      \<and> (pendingSet old = None \<and> pendingSet cur \<noteq> None \<longrightarrow>
          fadePhase old = Idle \<and> fadePhase cur = Loading)
      \<and> (fadePhase cur = Holding \<and> pendingSet cur \<noteq> None \<longrightarrow> fadePhase old = FadingToBlack))"

text \<open>Six image sets, as in the scenarios of the specification.\<close>

definition six_sets :: "image_set list" where
  "six_sets = [\<lparr>name = ''a'', images = []\<rparr>, \<lparr>name = ''b'', images = []\<rparr>,
               \<lparr>name = ''c'', images = []\<rparr>, \<lparr>name = ''d'', images = []\<rparr>,
               \<lparr>name = ''e'', images = []\<rparr>, \<lparr>name = ''f'', images = []\<rparr>]"

text \<open>
  The ring after a drag that started on the selected item 0 at rotation 0, turned the
  target by a full circle before the next frame, and was released.
\<close>

definition released_full_turn :: ring_state where
  "released_full_turn =
     initial_ring\<lparr>targetRotation := - (2 * pi), isHovered := True,
                   showRingAfterStart := True, dragStartIndexRef := Some 0\<rparr>"

section \<open>Remainders and normalised angles\<close>

lemma floor_times_le:
  fixes a b :: real
  assumes "0 < b"
  shows "b * of_int \<lfloor>a / b\<rfloor> \<le> a" "a < b * of_int \<lfloor>a / b\<rfloor> + b"
proof -
  have "of_int \<lfloor>a / b\<rfloor> \<le> a / b" by linarith
  then have "b * of_int \<lfloor>a / b\<rfloor> \<le> b * (a / b)" using assms by (intro mult_left_mono) simp_all
  then show "b * of_int \<lfloor>a / b\<rfloor> \<le> a" using assms by simp
  have "a / b < of_int \<lfloor>a / b\<rfloor> + 1" by linarith
  then have "b * (a / b) < b * (of_int \<lfloor>a / b\<rfloor> + 1)" using assms by (intro mult_strict_left_mono) simp_all
  then show "a < b * of_int \<lfloor>a / b\<rfloor> + b" using assms by (simp add: algebra_simps)
qed

lemma ceiling_times_le:
  fixes a b :: real
  assumes "0 < b"
  shows "a \<le> b * of_int \<lceil>a / b\<rceil>" "b * of_int \<lceil>a / b\<rceil> < a + b"
proof -
  have "a / b \<le> of_int \<lceil>a / b\<rceil>" by linarith
  then have "b * (a / b) \<le> b * of_int \<lceil>a / b\<rceil>" using assms by (intro mult_left_mono) simp_all
  then show "a \<le> b * of_int \<lceil>a / b\<rceil>" using assms by simp
  have "of_int \<lceil>a / b\<rceil> < a / b + 1" by linarith
  then have "b * of_int \<lceil>a / b\<rceil> < b * (a / b + 1)" using assms by (intro mult_strict_left_mono) simp_all
  then show "b * of_int \<lceil>a / b\<rceil> < a + b" using assms by (simp add: algebra_simps)
qed

lemma js_rem_pos:
  assumes "0 < b" "0 \<le> a"
  shows "js_rem a b = a - b * of_int \<lfloor>a / b\<rfloor>"
  using assms by (simp add: js_rem_def js_trunc_def)

lemma js_rem_bounds:
  assumes "0 < b"
  shows "- b < js_rem a b" "js_rem a b < b"
proof -
  note f = floor_times_le[OF assms, of a] and c = ceiling_times_le[OF assms, of a]
  show "- b < js_rem a b"
    using f(1) c(2) assms by (auto simp: js_rem_def js_trunc_def)
  show "js_rem a b < b"
    using f(2) c(1) assms by (auto simp: js_rem_def js_trunc_def)
qed

lemma js_rem_shift:
  "\<exists>k::int. js_rem a b = a - b * of_int k"
  by (auto simp: js_rem_def)

lemma floor_unique_shift:
  fixes x b :: real
  assumes "0 < b" "0 \<le> x - b * of_int k" "x - b * of_int k < b"
  shows "k = \<lfloor>x / b\<rfloor>"
proof -
  have "of_int k \<le> x / b" using assms by (simp add: field_simps)
  moreover have "x / b < of_int k + 1" using assms by (simp add: field_simps)
  ultimately show ?thesis by linarith
qed

lemma normalize_angle_floor:
  "normalize_angle x = x - 2 * pi * of_int \<lfloor>x / (2 * pi)\<rfloor>"
proof -
  let ?m = "2 * pi"
  have m: "0 < ?m" by simp
  obtain k :: int where k: "js_rem x ?m = x - ?m * of_int k"
    using js_rem_shift by blast
  have nn: "0 \<le> js_rem x ?m + ?m" using js_rem_bounds(1)[OF m, of x] by linarith
  have lt: "js_rem x ?m + ?m < 2 * ?m" using js_rem_bounds(2)[OF m, of x] by linarith
  define y where "y = js_rem x ?m + ?m"
  define j where "j = \<lfloor>y / ?m\<rfloor>"
  have n: "normalize_angle x = y - ?m * of_int j"
    unfolding normalize_angle_def y_def[symmetric] j_def using js_rem_pos[OF m] nn y_def by simp
  have lo: "0 \<le> y - ?m * of_int j" using floor_times_le(1)[OF m, of y] unfolding j_def by simp
  have hi: "y - ?m * of_int j < ?m" using floor_times_le(2)[OF m, of y] unfolding j_def by simp
  have e: "y - ?m * of_int j = x - ?m * of_int (k - 1 + j)"
    unfolding y_def k by (simp add: algebra_simps)
  have "k - 1 + j = \<lfloor>x / ?m\<rfloor>"
    by (rule floor_unique_shift[OF m]) (use lo hi e in simp_all)
  then show ?thesis using n e by simp
qed

lemma normalize_angle_range: "0 \<le> normalize_angle x" "normalize_angle x < 2 * pi"
proof -
  have m: "0 < 2 * pi" by simp
  show "0 \<le> normalize_angle x" using floor_times_le(1)[OF m, of x] by (simp add: normalize_angle_floor)
  show "normalize_angle x < 2 * pi" using floor_times_le(2)[OF m, of x] by (simp add: normalize_angle_floor)
qed

section \<open>Ticks over a full circle\<close>




lemma click_quotient_shift:
  "(r + d - pi / 2) / anglePerClick = (r - pi / 2) / anglePerClick + d / anglePerClick"
  by (simp add: diff_divide_distrib add_divide_distrib)















section \<open>Easing\<close>

lemma ease_fixed: "ease t t = t"
  by (simp add: ease_def)

lemma ease_far: "\<not> \<bar>t - c\<bar> < 1 / 1000 \<Longrightarrow> t - ease t c = (t - c) * (88 / 100)"
  by (simp add: ease_def Let_def ROTATION_EASING_def field_simps)

lemma ease_far_abs:
  assumes "\<not> \<bar>t - c\<bar> < 1 / 1000"
  shows "\<bar>t - ease t c\<bar> = (88 / 100) * \<bar>t - c\<bar>"
proof -
  have "\<bar>t - ease t c\<bar> = \<bar>(t - c) * (88 / 100)\<bar>"
    by (simp only: ease_far[OF assms])
  also have "\<dots> = \<bar>t - c\<bar> * \<bar>88 / 100\<bar>" by (rule abs_mult)
  finally show ?thesis by simp
qed

lemma ease_no_overshoot: "\<bar>t - ease t c\<bar> \<le> \<bar>t - c\<bar>"
proof (cases "\<bar>t - c\<bar> < 1 / 1000")
  case True
  then show ?thesis by (simp add: ease_def Let_def)
next
  case False
  show ?thesis unfolding ease_far_abs[OF False] by simp
qed

lemma ease_near: "\<bar>t - c\<bar> < 1 / 1000 \<Longrightarrow> ease t c = t"
  by (simp add: ease_def Let_def)

lemma ease_iter_fixed: "(ease t ^^ n) t = t"
  by (induction n) (simp_all add: ease_fixed)

lemma ease_iter_distance:
  "(ease t ^^ n) c = t \<or> \<bar>t - (ease t ^^ n) c\<bar> = (88 / 100) ^ n * \<bar>t - c\<bar>"
proof (induction n)
  case 0
  then show ?case by simp
next
  case (Suc n)
  let ?x = "(ease t ^^ n) c"
  show ?case
  proof (cases "?x = t")
    case True
    then show ?thesis by (simp add: ease_fixed)
  next
    case False
    with Suc have d: "\<bar>t - ?x\<bar> = (88 / 100) ^ n * \<bar>t - c\<bar>" by simp
    show ?thesis
    proof (cases "\<bar>t - ?x\<bar> < 1 / 1000")
      case True
      then show ?thesis by (simp add: ease_near)
    next
      case False
      then have "\<bar>t - ease t ?x\<bar> = (88 / 100) * \<bar>t - ?x\<bar>"
        by (rule ease_far_abs)
      then show ?thesis using d by simp
    qed
  qed
qed

lemma ease_reaches:
  assumes "(88 / 100) ^ k * \<bar>t - c\<bar> < 1 / 1000"
  shows "(ease t ^^ Suc k) c = t"
proof -
  from ease_iter_distance[where t=t and n=k and c=c] show ?thesis
  proof
    assume "(ease t ^^ k) c = t"
    then show ?thesis by (simp add: ease_fixed)
  next
    assume "\<bar>t - (ease t ^^ k) c\<bar> = (88 / 100) ^ k * \<bar>t - c\<bar>"
    with assms have "\<bar>t - (ease t ^^ k) c\<bar> < 1 / 1000" by simp
    then show ?thesis by (simp add: ease_near)
  qed
qed

lemma ease_stays:
  assumes "(ease t ^^ m) c = t"
  shows "(ease t ^^ (m + n)) c = t"
proof -
  have "(ease t ^^ (n + m)) c = (ease t ^^ n) ((ease t ^^ m) c)"
    by (simp add: funpow_add)
  then show ?thesis using assms by (simp add: ease_iter_fixed add.commute)
qed

lemma ease_bound_exists: "\<exists>k. (88 / 100) ^ k * \<bar>t - c\<bar> < (1 / 1000 :: real)"
proof (cases "t = c")
  case True
  then show ?thesis by simp
next
  case False
  then have p: "0 < \<bar>t - c\<bar>" by simp
  then have "0 < 1 / 1000 / \<bar>t - c\<bar>" by simp
  then obtain k where "(88 / 100 :: real) ^ k < 1 / 1000 / \<bar>t - c\<bar>"
    using real_arch_pow_inv[of "1 / 1000 / \<bar>t - c\<bar>" "88 / 100"] by auto
  then have "(88 / 100) ^ k * \<bar>t - c\<bar> < 1 / 1000"
    using p by (simp add: pos_less_divide_eq)
  then show ?thesis ..
qed

text \<open>
  Claim C5. One frame sets the rotation to the target when it is closer than 0.001 and
  moves it by 0.12 of the remaining difference otherwise; the distance to the target never
  grows; once \<open>0.88 ^ k\<close> times the initial distance is below 0.001, the rotation equals the
  target after \<open>k + 1\<close> frames and in every later frame; and such a \<open>k\<close> exists for every
  start.
\<close>

theorem easing_converges:
  "ease t c = (if \<bar>t - c\<bar> < 1 / 1000 then t else c + (t - c) * (12 / 100))
   \<and> \<bar>t - ease t c\<bar> \<le> \<bar>t - c\<bar>
   \<and> (\<forall>k. (88 / 100) ^ k * \<bar>t - c\<bar> < 1 / 1000 \<longrightarrow> (\<forall>n. (ease t ^^ (Suc k + n)) c = t))
   \<and> (\<exists>k. (88 / 100) ^ k * \<bar>t - c\<bar> < 1 / 1000)"
proof (intro conjI allI impI)
  show "ease t c = (if \<bar>t - c\<bar> < 1 / 1000 then t else c + (t - c) * (12 / 100))"
    by (simp add: ease_def Let_def ROTATION_EASING_def)
  show "\<bar>t - ease t c\<bar> \<le> \<bar>t - c\<bar>" by (rule ease_no_overshoot)
  show "(ease t ^^ (Suc k + n)) c = t" if "(88 / 100) ^ k * \<bar>t - c\<bar> < 1 / 1000" for k n
    using ease_stays[OF ease_reaches[OF that]] .
  show "\<exists>k. (88 / 100) ^ k * \<bar>t - c\<bar> < 1 / 1000" by (rule ease_bound_exists)
qed

theorem easing_converges_witness:
  "(88 / 100) ^ 1 * \<bar>1 - (999 / 1000 :: real)\<bar> < 1 / 1000
   \<and> ease 1 (ease 1 (999 / 1000)) = 1
   \<and> ease 1 0 = 12 / 100"
proof -
  have h: "(88 / 100) ^ 1 * \<bar>1 - (999 / 1000 :: real)\<bar> < 1 / 1000" by simp
  have "(ease 1 ^^ (Suc 1 + 0)) (999 / 1000) = 1"
    using easing_converges[of 1 "999 / 1000"] h by blast
  moreover have "ease 1 0 = 12 / 100"
    using easing_converges[of 1 0] by simp
  ultimately show ?thesis using h by (simp add: numeral_2_eq_2)
qed

section \<open>Playback rate and audio initialisation: properties\<close>

lemma playback_rate_eq: "playback_rate x = x * x + x / 2 + 1 / 2"
  by (simp add: playback_rate_def QUADRATIC_A_def QUADRATIC_B_def MIN_PLAYBACK_RATE_def)

lemma playback_rate_strict_mono:
  assumes "0 \<le> x" "x < y"
  shows "playback_rate x < playback_rate y"
proof -
  have "x * x \<le> y * y" using assms by (intro mult_mono) simp_all
  then show ?thesis using assms by (simp add: playback_rate_eq)
qed

text \<open>
  Claim C2, as amended. With \<open>x\<close> the zoom exponent normalised over the declared range
  (\<open>1/2\<close> when the bounds are equal): when a music voice is active and the audio is not
  muted, \<^verbatim>\<open>updatePlaybackRate\<close> sets the rate of the voice to \<open>1\<cdot>x\<^sup>2 + 0.5\<cdot>x + 0.5\<close>; when
  there is no voice or the audio is muted it leaves the voice as it is. The quadratic maps
  0 to 0.5, 0.5 to 1 and 1 to 2 and is strictly increasing on \<open>[0, 1]\<close>.
\<close>

theorem playback_rate_update:
  "(bgMusicRef s \<noteq> None \<and> \<not> isMutedRef s \<longrightarrow>
      bgMusicRef (updatePlaybackRate z zr s)
        = Some (1 * (normalized_zoom z zr)\<^sup>2 + (1 / 2) * normalized_zoom z zr + 1 / 2))
   \<and> (bgMusicRef s = None \<or> isMutedRef s \<longrightarrow>
        bgMusicRef (updatePlaybackRate z zr s) = bgMusicRef s)
   \<and> normalized_zoom z zr
        = (if zmin zr = zmax zr then 1 / 2 else (z - zmin zr) / (zmax zr - zmin zr))
   \<and> playback_rate 0 = 1 / 2 \<and> playback_rate (1 / 2) = 1 \<and> playback_rate 1 = 2
   \<and> (\<forall>x y. 0 \<le> x \<and> x < y \<and> y \<le> 1 \<longrightarrow> playback_rate x < playback_rate y)"
proof (intro conjI allI impI)
  show "bgMusicRef (updatePlaybackRate z zr s)
        = Some (1 * (normalized_zoom z zr)\<^sup>2 + (1 / 2) * normalized_zoom z zr + 1 / 2)"
    if "bgMusicRef s \<noteq> None \<and> \<not> isMutedRef s"
    using that by (simp add: updatePlaybackRate_def Let_def playback_rate_eq power2_eq_square)
  show "bgMusicRef (updatePlaybackRate z zr s) = bgMusicRef s"
    if "bgMusicRef s = None \<or> isMutedRef s"
    using that by (auto simp: updatePlaybackRate_def Let_def)
  show "normalized_zoom z zr
        = (if zmin zr = zmax zr then 1 / 2 else (z - zmin zr) / (zmax zr - zmin zr))"
    by (auto simp: normalized_zoom_def)
  show "playback_rate 0 = 1 / 2" "playback_rate (1 / 2) = 1" "playback_rate 1 = 2"
    by (simp_all add: playback_rate_eq)
  show "playback_rate x < playback_rate y" if "0 \<le> x \<and> x < y \<and> y \<le> 1" for x y
    using that playback_rate_strict_mono by blast
qed

theorem playback_rate_update_witness:
  "bgMusicRef (updatePlaybackRate 3 \<lparr>zmin = 1, zmax = 5\<rparr> (initial_audio\<lparr>bgMusicRef := Some 1\<rparr>))
     = Some 1
   \<and> bgMusicRef (updatePlaybackRate 5 \<lparr>zmin = 1, zmax = 5\<rparr> (initial_audio\<lparr>bgMusicRef := Some 1\<rparr>))
     = Some 2
   \<and> bgMusicRef (updatePlaybackRate 5 \<lparr>zmin = 1, zmax = 5\<rparr> initial_audio) = None
   \<and> playback_rate (1 / 4) < playback_rate (3 / 4)"
proof -
  let ?s = "initial_audio\<lparr>bgMusicRef := Some 1\<rparr>"
  let ?r = "\<lparr>zmin = 1, zmax = 5\<rparr>"
  have h: "bgMusicRef ?s \<noteq> None \<and> \<not> isMutedRef ?s" by (simp add: initial_audio_def)
  have n: "bgMusicRef initial_audio = None \<or> isMutedRef initial_audio" by (simp add: initial_audio_def)
  have o: "(0::real) \<le> 1 / 4 \<and> (1 / 4 :: real) < 3 / 4 \<and> (3 / 4 :: real) \<le> 1" by simp
  note t3 = playback_rate_update[of ?s 3 ?r]
  note t5 = playback_rate_update[of ?s 5 ?r]
  note t0 = playback_rate_update[of initial_audio 5 ?r]
  have nz: "normalized_zoom 3 ?r = 1 / 2" "normalized_zoom 5 ?r = 1"
    by (simp_all add: normalized_zoom_def)
  have "bgMusicRef (updatePlaybackRate 3 ?r ?s)
        = Some (1 * (normalized_zoom 3 ?r)\<^sup>2 + (1 / 2) * normalized_zoom 3 ?r + 1 / 2)"
    using t3 h by blast
  then have a: "bgMusicRef (updatePlaybackRate 3 ?r ?s) = Some 1"
    by (simp add: nz power2_eq_square)
  have "bgMusicRef (updatePlaybackRate 5 ?r ?s)
        = Some (1 * (normalized_zoom 5 ?r)\<^sup>2 + (1 / 2) * normalized_zoom 5 ?r + 1 / 2)"
    using t5 h by blast
  then have b: "bgMusicRef (updatePlaybackRate 5 ?r ?s) = Some 2"
    by (simp add: nz)
  have c: "bgMusicRef (updatePlaybackRate 5 ?r initial_audio) = None"
    using t0 n by (simp add: initial_audio_def)
  have d: "playback_rate (1 / 4) < playback_rate (3 / 4)"
    using t0 o by blast
  show ?thesis using a b c d by blast
qed

text \<open>
  Claim C2 as stated (for every call) fails: with an active voice at rate 1 and the mute
  flag set, the call for the top of the range (\<open>x = 1\<close>) does not set the rate to 2.
\<close>

theorem playback_rate_muted_counterexample:
  "normalized_zoom 5 \<lparr>zmin = 1, zmax = 5\<rparr> = 1
   \<and> bgMusicRef (initial_audio\<lparr>bgMusicRef := Some 1, isMutedRef := True\<rparr>) = Some 1
   \<and> bgMusicRef (updatePlaybackRate 5 \<lparr>zmin = 1, zmax = 5\<rparr>
        (initial_audio\<lparr>bgMusicRef := Some 1, isMutedRef := True\<rparr>))
      \<noteq> Some (1 * 1\<^sup>2 + (1 / 2) * 1 + 1 / 2)"
  by (simp add: updatePlaybackRate_def Let_def initial_audio_def normalized_zoom_def)

lemma initializeAudio_ready: "audioReady (initializeAudio env s)"
  by (auto simp: initializeAudio_def initializeAudio_try_def Let_def split: sum.splits option.splits if_splits)

lemma initializeAudio_music_failure_keeps_tick:
  assumes "load_asset env ''/tick.mp3'' = Some b" "context_ok env"
  shows "tickBufferRef (initializeAudio env initial_audio) = Some b"
  using assms
  by (simp add: initializeAudio_def initializeAudio_try_def Let_def initial_audio_def split: option.splits)

text \<open>
  Claim C8 on the code. When loading the tick sound fails and the background music would
  load, \<^verbatim>\<open>initializeAudio\<close> reports ready, but the exception of the tick sound leaves
  the outer \<^verbatim>\<open>try\<close> before the music is fetched: the music buffer stays empty, also after
  a second call (which returns at once because the engine is ready). In the other direction
  a failure of the music keeps the tick sound.
\<close>

theorem tick_failure_blocks_music:
  "audioReady (initializeAudio
       \<lparr>context_ok = True, load_asset = (\<lambda>url. if url = ''/tick.mp3'' then None else Some url)\<rparr>
       initial_audio)
   \<and> bgMusicBufferRef (initializeAudio
       \<lparr>context_ok = True, load_asset = (\<lambda>url. if url = ''/tick.mp3'' then None else Some url)\<rparr>
       initial_audio) = None
   \<and> bgMusicBufferRef (initializeAudio
       \<lparr>context_ok = True, load_asset = (\<lambda>url. if url = ''/tick.mp3'' then None else Some url)\<rparr>
       (initializeAudio
       \<lparr>context_ok = True, load_asset = (\<lambda>url. if url = ''/tick.mp3'' then None else Some url)\<rparr>
       initial_audio)) = None
   \<and> tickBufferRef (initializeAudio
       \<lparr>context_ok = True, load_asset = (\<lambda>url. if url = ''/bg.mp3'' then None else Some url)\<rparr>
       initial_audio) = Some ''/tick.mp3''"
  by (simp add: initializeAudio_def initializeAudio_try_def Let_def initial_audio_def)

theorem tick_failure_blocks_music_witness:
  "bgMusicBufferRef (initializeAudio
       \<lparr>context_ok = True, load_asset = (\<lambda>url. if url = ''/tick.mp3'' then None else Some url)\<rparr>
       initial_audio) \<noteq> Some ''/bg.mp3''"
  using tick_failure_blocks_music by simp

section \<open>Selected index: properties\<close>

lemma anglePerItem_pos: "0 < n \<Longrightarrow> 0 < anglePerItem n"
  by (simp add: anglePerItem_def)

lemma smod_bounds:
  fixes a n :: int
  assumes "0 < n"
  shows "- n < a smod n" "a smod n < n"
proof -
  define m where "m = \<bar>a\<bar> mod n"
  have m: "0 \<le> m" "m < n" using assms by (simp_all add: m_def)
  have e: "a smod n = sgn a * m"
    using assms by (simp add: smod_int_alt_def m_def)
  have "sgn a = 1 \<or> sgn a = 0 \<or> sgn a = - 1" by (auto simp: sgn_if)
  then have "a smod n = m \<or> a smod n = 0 \<or> a smod n = - m" using e by auto
  then show "- n < a smod n" "a smod n < n" using m assms by auto
qed

lemma smod_nonneg:
  fixes a n :: int
  assumes "0 \<le> a" "0 < n"
  shows "a smod n = a mod n"
  using assms by (simp add: smod_int_alt_def sgn_if)

lemma wrap_index_range:
  assumes "0 < n"
  shows "\<exists>i. wrap_index a n = Some i \<and> 0 \<le> i \<and> i < n"
proof -
  have b: "0 \<le> a smod n + n" using smod_bounds(1)[OF assms, of a] by simp
  have "wrap_index a n = Some ((a smod n + n) mod n)"
    using assms b by (simp add: wrap_index_def js_rem_int_def smod_nonneg)
  then show ?thesis using assms by simp
qed

lemma index_of_rotation_range:
  assumes "0 < n"
  shows "\<exists>i. index_of_rotation n r = Some i \<and> 0 \<le> i \<and> i < int n"
proof -
  have nz: "anglePerItem n \<noteq> 0" using anglePerItem_pos[OF assms] by simp
  obtain i where "wrap_index (js_round (normalize_angle r / anglePerItem n)) (int n) = Some i"
    "0 \<le> i" "i < int n"
    using wrap_index_range[of "int n"] assms by auto
  then show ?thesis using assms nz by (simp add: index_of_rotation_def js_div_def)
qed

text \<open>
  Claim C10. For an empty list of image sets \<^verbatim>\<open>anglePerItem\<close> is 0 and both
  \<^verbatim>\<open>selectedIndex\<close> and \<^verbatim>\<open>finalSelectedIndex\<close> are 0 for every rotation; reading the empty
  list at that index gives \<^verbatim>\<open>undefined\<close>, and the trigger effect then starts nothing. For a
  non-empty list \<^verbatim>\<open>anglePerItem\<close> is not zero, so the division is defined, and both
  indices are numbers within the list.
\<close>

theorem empty_set_is_safe:
  "anglePerItem 0 = 0
   \<and> selectedIndex 0 ringRotation' = Some 0
   \<and> finalSelectedIndex 0 targetRotation' = Some 0
   \<and> image_set_at [] 0 = None
   \<and> snd (trigger_effect [] isMobile (r, f)) = f
   \<and> (0 < n \<longrightarrow> anglePerItem n \<noteq> 0
        \<and> (\<exists>i. selectedIndex n ringRotation' = Some i \<and> 0 \<le> i \<and> i < int n)
        \<and> (\<exists>i. finalSelectedIndex n targetRotation' = Some i \<and> 0 \<le> i \<and> i < int n))"
proof -
  have t: "snd (trigger_effect [] isMobile (r, f)) = f"
    by (simp add: trigger_effect_def transition_trigger_def Let_def image_set_at_def
        selectedIndex_def finalSelectedIndex_def index_of_rotation_def
        split: option.splits)
  show ?thesis
    using index_of_rotation_range[of n] anglePerItem_pos[of n] t
    by (auto simp: anglePerItem_def selectedIndex_def finalSelectedIndex_def
        index_of_rotation_def image_set_at_def)
qed

theorem empty_set_is_safe_witness:
  "(0::nat) < 6 \<and> anglePerItem 6 = pi / 3
   \<and> (\<exists>i. selectedIndex 6 pi = Some i \<and> 0 \<le> i \<and> i < 6)
   \<and> selectedIndex 0 pi = Some 0"
proof -
  have h: "(0::nat) < 6" by simp
  have "\<exists>i. selectedIndex 6 pi = Some i \<and> 0 \<le> i \<and> i < int 6"
    using empty_set_is_safe[where ringRotation'=pi and targetRotation'=pi and n=6] h by blast
  moreover have "selectedIndex 0 pi = Some 0"
    using empty_set_is_safe[where ringRotation'=pi and targetRotation'=pi and n=6] by blast
  ultimately show ?thesis by (simp add: anglePerItem_def)
qed

section \<open>Gestures: properties\<close>

lemma click_diff_shortest:
  "\<exists>(k::int) d. d = of_int idx * api - target + 2 * pi * of_int k
      \<and> - pi \<le> d \<and> d \<le> pi
      \<and> click_diff api target idx = (if \<bar>\<bar>d\<bar> - pi\<bar> < 1 / 1000 then pi else d)"
proof -
  define T where "T = of_int idx * api"
  define k1 where "k1 = \<lfloor>T / (2 * pi)\<rfloor>"
  define k2 where "k2 = \<lfloor>target / (2 * pi)\<rfloor>"
  define d0 where "d0 = normalize_angle T - normalize_angle target"
  have e0: "d0 = T - target + 2 * pi * of_int (k2 - k1)"
    by (simp add: d0_def normalize_angle_floor k1_def k2_def algebra_simps)
  have r0: "- (2 * pi) < d0" "d0 < 2 * pi"
    using normalize_angle_range[of T] normalize_angle_range[of target] by (simp_all add: d0_def)
  define d1 where "d1 = (if d0 > pi then d0 - 2 * pi else if d0 < - pi then d0 + 2 * pi else d0)"
  have cd: "click_diff api target idx = (if \<bar>\<bar>d1\<bar> - pi\<bar> < 1 / 1000 then pi else d1)"
    by (simp add: click_diff_def Let_def d1_def d0_def T_def)
  have rng: "- pi \<le> d1" "d1 \<le> pi" using r0 by (auto simp: d1_def)
  define k where "k = (if d0 > pi then k2 - k1 - 1 else if d0 < - pi then k2 - k1 + 1 else k2 - k1)"
  have "d1 = T - target + 2 * pi * of_int k"
    by (simp add: d1_def k_def e0 algebra_simps)
  then show ?thesis using rng cd unfolding T_def by blast
qed

lemma shortest_representative:
  fixes d :: real and m :: int
  assumes "- pi \<le> d" "d \<le> pi"
  shows "\<bar>d\<bar> \<le> \<bar>d + 2 * pi * of_int m\<bar>"
proof (cases "m = 0")
  case True
  then show ?thesis by simp
next
  case False
  define t where "t = 2 * pi * real_of_int m"
  from False consider "1 \<le> m" | "m \<le> - 1" by linarith
  then have "2 * pi \<le> t \<or> t \<le> - (2 * pi)"
  proof cases
    case 1
    then have "(1::real) \<le> of_int m" by simp
    then have "2 * pi * 1 \<le> 2 * pi * of_int m" by (intro mult_left_mono) simp_all
    then show ?thesis by (simp add: t_def)
  next
    case 2
    then have "real_of_int m \<le> - 1" by (metis of_int_le_iff of_int_minus of_int_1)
    then have "2 * pi * of_int m \<le> 2 * pi * (- 1)" by (intro mult_left_mono) simp_all
    then show ?thesis by (simp add: t_def)
  qed
  then have "\<bar>d\<bar> \<le> \<bar>d + t\<bar>" using assms by linarith
  then show ?thesis by (simp add: t_def)
qed

lemma normalize_sixth:
  "normalize_angle (of_int j * anglePerItem 6) = of_int (j mod 6) * (pi / 3)"
proof -
  have a: "anglePerItem 6 = pi / 3" by (simp add: anglePerItem_def)
  have "of_int j * (pi / 3) / (2 * pi) = (of_int j :: real) / of_int 6" by simp
  then have f: "\<lfloor>of_int j * (pi / 3) / (2 * pi)\<rfloor> = j div 6"
    by (simp only: floor_divide_of_int_eq)
  have h: "real_of_int (j mod 6) = of_int j - 6 * of_int (j div 6)"
    by (simp add: minus_mult_div_eq_mod[symmetric])
  show ?thesis
    unfolding a normalize_angle_floor f h by (simp add: algebra_simps)
qed

lemma click_diff_opposite:
  assumes "(idx - j) mod 6 = 3"
  shows "click_diff (anglePerItem 6) (of_int j * anglePerItem 6) idx = pi"
proof -
  define x where "x = real_of_int (idx mod 6)"
  define y where "y = real_of_int (j mod 6)"
  have "(idx mod 6 - j mod 6) mod 6 = 3" using assms by (simp add: mod_diff_eq)
  moreover have "0 \<le> idx mod 6" "idx mod 6 < 6" "0 \<le> j mod 6" "j mod 6 < 6" by simp_all
  ultimately have "idx mod 6 = j mod 6 + 3 \<or> idx mod 6 = j mod 6 - 3" by presburger
  then have "x = y + 3 \<or> x = y - 3"
    unfolding x_def y_def by (metis of_int_add of_int_diff of_int_numeral)
  then have "x * (pi / 3) - y * (pi / 3) = pi \<or> x * (pi / 3) - y * (pi / 3) = - pi"
    by (auto simp: algebra_simps)
  then have d: "normalize_angle (of_int idx * anglePerItem 6) - normalize_angle (of_int j * anglePerItem 6) = pi
      \<or> normalize_angle (of_int idx * anglePerItem 6) - normalize_angle (of_int j * anglePerItem 6) = - pi"
    unfolding normalize_sixth x_def y_def .
  then show ?thesis
    by (auto simp: click_diff_def Let_def)
qed

text \<open>
  Claim C6. At pointer-up in the click branch the target rotation grows by \<open>diff\<close>, where
  \<open>d\<close> is the difference from the target rotation to the angle of the clicked item brought
  into \<open>[-\<pi>, \<pi>]\<close> by a multiple of \<open>2\<pi>\<close> (so no other representative is shorter), and
  \<open>diff\<close> is \<open>\<pi>\<close> when \<open>|d|\<close> is within 0.001 of \<open>\<pi>\<close> and \<open>d\<close> otherwise. With six items,
  a target rotation at an item and a click on the item three places away, \<open>diff\<close> is
  \<open>+\<pi>\<close>.
\<close>

theorem click_rotates_shortest_path:
  assumes "isDragging r" "clickStartRef r = Some c" "isDialVisible r"
  shows "\<exists>diff d (k::int).
           handlePointerUp api r = Some (click_release api c r)
         \<and> targetRotation (click_release api c r) = targetRotation r + diff
         \<and> d = of_int (cs_index c) * api - targetRotation r + 2 * pi * of_int k
         \<and> - pi \<le> d \<and> d \<le> pi
         \<and> (\<forall>m::int. \<bar>d\<bar> \<le> \<bar>d + 2 * pi * of_int m\<bar>)
         \<and> diff = (if \<bar>\<bar>d\<bar> - pi\<bar> < 1 / 1000 then pi else d)
         \<and> - pi \<le> diff \<and> diff \<le> pi
         \<and> (api = anglePerItem 6
              \<and> (\<exists>j::int. targetRotation r = of_int j * api \<and> (cs_index c - j) mod 6 = 3)
             \<longrightarrow> diff = pi)"
proof -
  obtain k :: int and d where d: "d = of_int (cs_index c) * api - targetRotation r + 2 * pi * of_int k"
    "- pi \<le> d" "d \<le> pi"
    "click_diff api (targetRotation r) (cs_index c) = (if \<bar>\<bar>d\<bar> - pi\<bar> < 1 / 1000 then pi else d)"
    using click_diff_shortest[of "cs_index c" api "targetRotation r"] by blast
  define diff where "diff = click_diff api (targetRotation r) (cs_index c)"
  have 1: "handlePointerUp api r = Some (click_release api c r)"
    using assms by (simp add: handlePointerUp_def)
  have 2: "targetRotation (click_release api c r) = targetRotation r + diff"
    by (simp add: click_release_def Let_def diff_def)
  have 3: "\<forall>m::int. \<bar>d\<bar> \<le> \<bar>d + 2 * pi * of_int m\<bar>"
    using shortest_representative[OF d(2,3)] by blast
  have 4: "diff = (if \<bar>\<bar>d\<bar> - pi\<bar> < 1 / 1000 then pi else d)"
    using d(4) by (simp add: diff_def)
  have 5: "- pi \<le> diff" "diff \<le> pi" using 4 d(2,3) by (auto split: if_splits)
  have 6: "diff = pi"
    if "api = anglePerItem 6 \<and> (\<exists>j::int. targetRotation r = of_int j * api \<and> (cs_index c - j) mod 6 = 3)"
    using that click_diff_opposite unfolding diff_def by auto
  show ?thesis using 1 2 d(1,2,3) 3 4 5 6 by blast
qed

theorem click_rotates_shortest_path_witness:
  "map_option targetRotation
     (handlePointerUp (anglePerItem 6)
        (initial_ring\<lparr>isDragging := True, showRingAfterStart := True,
           clickStartRef := Some \<lparr>cs_x = 0, cs_y = 0, cs_index = 3\<rparr>\<rparr>)) = Some pi"
proof -
  let ?c = "\<lparr>cs_x = 0, cs_y = 0, cs_index = 3\<rparr>"
  let ?r = "initial_ring\<lparr>isDragging := True, showRingAfterStart := True, clickStartRef := Some ?c\<rparr>"
  have h: "isDragging ?r" "clickStartRef ?r = Some ?c" "isDialVisible ?r"
    by (simp_all add: isDialVisible_def)
  have j: "\<exists>j::int. targetRotation ?r = of_int j * anglePerItem 6 \<and> (cs_index ?c - j) mod 6 = 3"
    by (rule exI[of _ 0]) (simp add: initial_ring_def)
  obtain diff where
    a: "handlePointerUp (anglePerItem 6) ?r = Some (click_release (anglePerItem 6) ?c ?r)"
    and b: "targetRotation (click_release (anglePerItem 6) ?c ?r) = targetRotation ?r + diff"
    and c: "diff = pi"
    using click_rotates_shortest_path[OF h, of "anglePerItem 6"] j by blast
  show ?thesis using a b c by (simp add: initial_ring_def)
qed

lemma handlePointerMove_click:
  assumes "isDragging r" "dragStartRef r \<noteq> None"
  shows "clickStartRef (handlePointerMove centre e r)
         = (case clickStartRef r of
              None \<Rightarrow> None
            | Some c \<Rightarrow> if 5 < displacement c e then None else Some c)"
    and "isDragging (handlePointerMove centre e r)"
    and "dragStartRef (handlePointerMove centre e r) \<noteq> None"
    and "isDialVisible (handlePointerMove centre e r) = isDialVisible r"
  using assms
  by (auto simp: handlePointerMove_def Let_def displacement_def isDialVisible_def
           split: option.splits)

lemma pointer_moves_click:
  assumes "isDragging r" "dragStartRef r \<noteq> None"
  shows "clickStartRef (pointer_moves centre es r)
         = (case clickStartRef r of
              None \<Rightarrow> None
            | Some c \<Rightarrow> if list_ex (\<lambda>e. 5 < displacement c e) es then None else Some c)
       \<and> isDragging (pointer_moves centre es r)
       \<and> dragStartRef (pointer_moves centre es r) \<noteq> None
       \<and> isDialVisible (pointer_moves centre es r) = isDialVisible r"
  using assms
proof (induction es arbitrary: r)
  case Nil
  then show ?case by (simp split: option.splits)
next
  case (Cons e es)
  note m = handlePointerMove_click[OF Cons.prems, of centre e]
  note ih = Cons.IH[OF m(2) m(3)]
  show ?case using ih m(1) m(4) by (auto split: option.splits if_splits)
qed

lemma handlePointerDown_accepted:
  assumes "audioStarted" "idle" "isSelectedButton \<or> isDialVisible r0"
  shows "clickStartRef (handlePointerDown audioStarted idle selIdx centre x y isSelectedButton (Some i) r0)
         = Some \<lparr>cs_x = x, cs_y = y, cs_index = i\<rparr>"
    and "isDragging (handlePointerDown audioStarted idle selIdx centre x y isSelectedButton (Some i) r0)"
    and "dragStartRef (handlePointerDown audioStarted idle selIdx centre x y isSelectedButton (Some i) r0) \<noteq> None"
    and "isDialVisible (handlePointerDown audioStarted idle selIdx centre x y isSelectedButton (Some i) r0)"
    and "dragStartIndexRef (handlePointerDown audioStarted idle selIdx centre x y isSelectedButton (Some i) r0)
         = Some selIdx"
  using assms by (auto simp: handlePointerDown_def Let_def isDialVisible_def)

text \<open>
  Claim C7. After an accepted pointer-down on an item: if some pointer-move of the gesture
  is more than 5 px away from the start position, the click start is cleared whatever
  moves follow, and pointer-up takes the drag branch; if no move is, the click start is
  kept and pointer-up takes the click branch.
\<close>

theorem click_classification:
  assumes "audioStarted" "idle" "isSelectedButton \<or> isDialVisible r0"
    and "r1 = handlePointerDown audioStarted idle selIdx centre x y isSelectedButton (Some i) r0"
    and "c = \<lparr>cs_x = x, cs_y = y, cs_index = i\<rparr>"
    and "r2 = pointer_moves centre es r1"
  shows "clickStartRef r1 = Some c
       \<and> (list_ex (\<lambda>e. 5 < displacement c e) es \<longrightarrow>
            clickStartRef r2 = None \<and> handlePointerUp api r2 = drag_release api r2)
       \<and> (\<not> list_ex (\<lambda>e. 5 < displacement c e) es \<longrightarrow>
            clickStartRef r2 = Some c \<and> isDialVisible r2
            \<and> handlePointerUp api r2 = Some (click_release api c r2))"
proof -
  note d = handlePointerDown_accepted[OF assms(1,2,3), of selIdx centre x y i]
  have d1: "clickStartRef r1 = Some c" "isDragging r1" "dragStartRef r1 \<noteq> None" "isDialVisible r1"
    using d by (simp_all add: assms(4,5))
  note p = pointer_moves_click[OF d1(2,3), of centre es]
  have cs: "clickStartRef r2 = (if list_ex (\<lambda>e. 5 < displacement c e) es then None else Some c)"
    using p d1(1) by (simp add: assms(6))
  have dr: "isDragging r2" and vis: "isDialVisible r2"
    using p d1(4) by (simp_all add: assms(6))
  show ?thesis using d1(1) cs dr vis by (auto simp: handlePointerUp_def)
qed

lemma displacement_examples:
  "displacement \<lparr>cs_x = 0, cs_y = 0, cs_index = 2\<rparr> (3, 4) = 5"
  "displacement \<lparr>cs_x = 0, cs_y = 0, cs_index = 2\<rparr> (6, 8) = 10"
  "displacement \<lparr>cs_x = 0, cs_y = 0, cs_index = 2\<rparr> (0, 0) = 0"
proof -
  have "sqrt 25 = 5" by (rule real_sqrt_unique) simp_all
  then show "displacement \<lparr>cs_x = 0, cs_y = 0, cs_index = 2\<rparr> (3, 4) = 5"
    by (simp add: displacement_def)
  have "sqrt 100 = 10" by (rule real_sqrt_unique) simp_all
  then show "displacement \<lparr>cs_x = 0, cs_y = 0, cs_index = 2\<rparr> (6, 8) = 10"
    by (simp add: displacement_def)
  show "displacement \<lparr>cs_x = 0, cs_y = 0, cs_index = 2\<rparr> (0, 0) = 0"
    by (simp add: displacement_def)
qed

theorem click_classification_witness:
  "clickStartRef (pointer_moves None [(6, 8), (0, 0)]
      (handlePointerDown True True 0 None 0 0 True (Some 2) initial_ring)) = None
   \<and> handlePointerUp (anglePerItem 6) (pointer_moves None [(6, 8), (0, 0)]
      (handlePointerDown True True 0 None 0 0 True (Some 2) initial_ring))
     = drag_release (anglePerItem 6) (pointer_moves None [(6, 8), (0, 0)]
      (handlePointerDown True True 0 None 0 0 True (Some 2) initial_ring))
   \<and> clickStartRef (pointer_moves None [(3, 4), (0, 0)]
      (handlePointerDown True True 0 None 0 0 True (Some 2) initial_ring))
     = Some \<lparr>cs_x = 0, cs_y = 0, cs_index = 2\<rparr>
   \<and> handlePointerUp (anglePerItem 6) (pointer_moves None [(3, 4), (0, 0)]
      (handlePointerDown True True 0 None 0 0 True (Some 2) initial_ring))
     = Some (click_release (anglePerItem 6) \<lparr>cs_x = 0, cs_y = 0, cs_index = 2\<rparr>
         (pointer_moves None [(3, 4), (0, 0)]
           (handlePointerDown True True 0 None 0 0 True (Some 2) initial_ring)))"
proof -
  let ?c = "\<lparr>cs_x = 0, cs_y = 0, cs_index = 2\<rparr>"
  have far: "list_ex (\<lambda>e. 5 < displacement ?c e) [(6, 8), (0, 0)]"
    by (simp add: displacement_examples)
  have near: "\<not> list_ex (\<lambda>e. 5 < displacement ?c e) [(3, 4), (0, 0)]"
    by (simp add: displacement_examples)
  have acc: "True \<or> isDialVisible initial_ring" by simp
  note t1 = click_classification[OF TrueI TrueI acc refl refl refl,
      of 0 None 0 0 2 "[(6, 8), (0, 0)]" "anglePerItem 6"]
  note t2 = click_classification[OF TrueI TrueI acc refl refl refl,
      of 0 None 0 0 2 "[(3, 4), (0, 0)]" "anglePerItem 6"]
  show ?thesis using t1 t2 far near by blast
qed

lemma js_round_nearest:
  fixes q :: real and m :: int
  shows "\<bar>q - of_int (js_round q)\<bar> \<le> \<bar>q - of_int m\<bar>"
proof -
  define k where "k = js_round q"
  have k: "of_int k \<le> q + 1 / 2" "q + 1 / 2 < of_int k + 1"
    unfolding k_def js_round_def by linarith+
  show ?thesis
  proof (cases "m = k")
    case True
    then show ?thesis by (simp add: k_def)
  next
    case False
    then consider "m \<le> k - 1" | "k + 1 \<le> m" by linarith
    then show ?thesis
    proof cases
      case 1
      then have "real_of_int m \<le> of_int k - 1" by (metis of_int_le_iff of_int_diff of_int_1)
      then show ?thesis using k unfolding k_def[symmetric] by linarith
    next
      case 2
      then have "real_of_int k + 1 \<le> of_int m" by (metis of_int_le_iff of_int_add of_int_1)
      then show ?thesis using k unfolding k_def[symmetric] by linarith
    qed
  qed
qed

lemma nearest_multiple:
  fixes t api :: real and m :: int
  assumes "api \<noteq> 0"
  shows "\<bar>t - of_int (js_round (t / api)) * api\<bar> \<le> \<bar>t - of_int m * api\<bar>"
proof -
  have e: "t - of_int j * api = (t / api - of_int j) * api" for j :: int
    using assms by (simp add: field_simps)
  have "\<bar>t / api - of_int (js_round (t / api))\<bar> * \<bar>api\<bar> \<le> \<bar>t / api - of_int m\<bar> * \<bar>api\<bar>"
    by (intro mult_right_mono js_round_nearest) simp
  then show ?thesis unfolding e abs_mult .
qed

text \<open>
  Claim C9. While dragging, pointer-up leaves the drag branch only when a click start is
  recorded and the dial is visible. When the dial is not visible (and \<^verbatim>\<open>anglePerItem\<close> is
  not zero) the release takes the drag branch even with a click start recorded: the target
  rotation becomes \<^verbatim>\<open>Math.round(targetRotation / anglePerItem) * anglePerItem\<close>, a nearest
  multiple of \<^verbatim>\<open>anglePerItem\<close>, and the gesture ends.
\<close>

theorem release_without_visible_dial:
  assumes "isDragging r"
  shows "(handlePointerUp api r \<noteq> drag_release api r \<longrightarrow>
            clickStartRef r \<noteq> None \<and> isDialVisible r)
       \<and> (\<not> isDialVisible r \<and> api \<noteq> 0 \<longrightarrow>
            (\<exists>r'. handlePointerUp api r = Some r'
               \<and> targetRotation r' = of_int (js_round (targetRotation r / api)) * api
               \<and> (\<forall>m::int. \<bar>targetRotation r - targetRotation r'\<bar>
                              \<le> \<bar>targetRotation r - of_int m * api\<bar>)
               \<and> \<not> isDragging r' \<and> clickStartRef r' = None \<and> dragStartRef r' = None))"
proof -
  have click: "clickStartRef r \<noteq> None \<and> isDialVisible r"
    if "handlePointerUp api r \<noteq> drag_release api r"
    using that assms by (auto simp: handlePointerUp_def split: if_splits option.splits)
  have drag: "\<exists>r'. handlePointerUp api r = Some r'
               \<and> targetRotation r' = of_int (js_round (targetRotation r / api)) * api
               \<and> (\<forall>m::int. \<bar>targetRotation r - targetRotation r'\<bar>
                              \<le> \<bar>targetRotation r - of_int m * api\<bar>)
               \<and> \<not> isDragging r' \<and> clickStartRef r' = None \<and> dragStartRef r' = None"
    if a: "\<not> isDialVisible r \<and> api \<noteq> 0"
  proof -
    let ?r' = "r\<lparr>targetRotation := of_int (js_round (targetRotation r / api)) * api,
                isDragging := False, dragStartRef := None, clickStartRef := None\<rparr>"
    have "handlePointerUp api r = Some ?r'"
      using a assms by (simp add: handlePointerUp_def drag_release_def js_div_def Let_def)
    moreover have "\<forall>m::int. \<bar>targetRotation r - targetRotation ?r'\<bar>
                                \<le> \<bar>targetRotation r - of_int m * api\<bar>"
      using a nearest_multiple[of api "targetRotation r"] by simp
    ultimately show ?thesis
      by (intro exI[of _ ?r']) simp
  qed
  show ?thesis using click drag by blast
qed

theorem release_without_visible_dial_witness:
  "map_option targetRotation
     (handlePointerUp (anglePerItem 6)
        (initial_ring\<lparr>isDragging := True, targetRotation := pi / 4,
           clickStartRef := Some \<lparr>cs_x = 0, cs_y = 0, cs_index = 3\<rparr>\<rparr>)) = Some (pi / 3)"
proof -
  let ?r = "initial_ring\<lparr>isDragging := True, targetRotation := pi / 4,
           clickStartRef := Some \<lparr>cs_x = 0, cs_y = 0, cs_index = 3\<rparr>\<rparr>"
  have a: "anglePerItem 6 = pi / 3" by (simp add: anglePerItem_def)
  have h: "isDragging ?r" by simp
  have v: "\<not> isDialVisible ?r \<and> anglePerItem 6 \<noteq> 0"
    by (simp add: isDialVisible_def initial_ring_def a)
  obtain r' where "handlePointerUp (anglePerItem 6) ?r = Some r'"
    "targetRotation r' = of_int (js_round (targetRotation ?r / anglePerItem 6)) * anglePerItem 6"
    using release_without_visible_dial[OF h, of "anglePerItem 6"] v by blast
  then show ?thesis
    by (simp add: js_round_def a)
qed

section \<open>The trigger effect\<close>

lemma wrap_index_refl: "n \<noteq> 0 \<Longrightarrow> js_eq (wrap_index i n) (wrap_index i n)"
  by (simp add: js_eq_def wrap_index_def js_rem_int_def)

text \<open>
  One run of the trigger effect with a drag start index recorded: it changes nothing
  while dragging or while the settle condition fails; it starts no transition when the
  final index is the start index; and it starts one only when the settle condition holds
  and the two indices differ.
\<close>

lemma trigger_waits:
  assumes "dragStartIndexRef r = Some startIdx"
  shows "isDragging r \<or> \<not> settled \<Longrightarrow>
           transition_trigger imageSets selIdx finalIdx settled (r, f) = (r, f)"
  using assms by (auto simp: transition_trigger_def Let_def)

lemma trigger_same_index:
  assumes "dragStartIndexRef r = Some startIdx" "finalIdx = Some startIdx"
  shows "snd (transition_trigger imageSets selIdx finalIdx settled (r, f)) = f"
proof (cases "imageSets = []")
  case True
  then show ?thesis using assms
    by (auto simp: transition_trigger_def Let_def image_set_at_def)
next
  case False
  then have "js_eq (wrap_index startIdx (int (length imageSets))) (wrap_index startIdx (int (length imageSets)))"
    by (intro wrap_index_refl) simp
  then show ?thesis using assms
    by (simp add: transition_trigger_def Let_def)
qed

lemma trigger_starts_only_settled:
  assumes "dragStartIndexRef r = Some startIdx"
    and "snd (transition_trigger imageSets selIdx finalIdx settled (r, f)) \<noteq> f"
  shows "\<not> isDragging r \<and> settled \<and> finalIdx \<noteq> Some startIdx
       \<and> \<not> js_eq (wrap_index startIdx (int (length imageSets)))
                  (Option.bind finalIdx (\<lambda>i. wrap_index i (int (length imageSets))))"
proof -
  have "finalIdx \<noteq> Some startIdx" using trigger_same_index[OF assms(1)] assms(2) by blast
  moreover have "\<not> isDragging r \<and> settled \<and>
        \<not> js_eq (wrap_index startIdx (int (length imageSets)))
                  (Option.bind finalIdx (\<lambda>i. wrap_index i (int (length imageSets))))"
    using assms by (auto simp: transition_trigger_def Let_def split: if_splits option.splits)
  ultimately show ?thesis by blast
qed

lemma anglePerItem_six: "anglePerItem 6 = pi / 3"
  by (simp add: anglePerItem_def)

lemma full_turn_down:
  "handlePointerDown True True 0 (Some (0, 0)) 0 100 True (Some 0) initial_ring
   = initial_ring\<lparr>isDragging := True, isHovered := True, showRingAfterStart := True,
       dragStartRef := Some (pi / 2), dragStartIndexRef := Some 0,
       clickStartRef := Some \<lparr>cs_x = 0, cs_y = 100, cs_index = 0\<rparr>\<rparr>"
  by (simp add: handlePointerDown_def Let_def initial_ring_def isDialVisible_def
      getPointerAngle_def js_atan2_def)

lemma far_from_start: "5 < sqrt 20000"
  by (rule real_less_rsqrt) simp

lemma full_turn_moves:
  "pointer_moves (Some (0, 0)) [(- 100, 0), (0, - 100), (100, 0), (0, 100)]
     (handlePointerDown True True 0 (Some (0, 0)) 0 100 True (Some 0) initial_ring)
   = initial_ring\<lparr>targetRotation := - (2 * pi), isDragging := True, isHovered := True,
       showRingAfterStart := True, dragStartRef := Some (pi / 2), dragStartIndexRef := Some 0,
       clickStartRef := None\<rparr>"
  unfolding full_turn_down
  using pi_ge_two
  by (simp add: handlePointerMove_def Let_def initial_ring_def
      getPointerAngle_def js_atan2_def far_from_start)

lemma full_turn_up:
  "handlePointerUp (anglePerItem 6)
     (pointer_moves (Some (0, 0)) [(- 100, 0), (0, - 100), (100, 0), (0, 100)]
        (handlePointerDown True True 0 (Some (0, 0)) 0 100 True (Some 0) initial_ring))
   = Some released_full_turn"
  unfolding full_turn_moves
  by (simp add: released_full_turn_def handlePointerUp_def drag_release_def js_div_def Let_def
      anglePerItem_six js_round_def initial_ring_def isDialVisible_def)

lemma index_at_rest: "selectedIndex 6 0 = Some 0"
  by (simp add: selectedIndex_def index_of_rotation_def js_div_def anglePerItem_six normalize_angle_floor
      js_round_def wrap_index_def js_rem_int_def smod_int_alt_def)

lemma index_after_full_turn: "finalSelectedIndex 6 (- (2 * pi)) = Some 0"
  by (simp add: finalSelectedIndex_def index_of_rotation_def js_div_def anglePerItem_six normalize_angle_floor
      js_round_def wrap_index_def js_rem_int_def smod_int_alt_def)

lemma settled_full_turn: "isRotationSettled False (- (2 * pi)) 0"
  by (simp add: isRotationSettled_def Let_def)

lemma first_frame_after_full_turn: "ease (- (2 * pi)) 0 = - (6 * pi / 25)"
  using pi_ge_two by (simp add: ease_def Let_def ROTATION_EASING_def)

lemma index_after_one_frame: "selectedIndex 6 (- (6 * pi / 25)) = Some 5"
proof -
  have f: "\<lfloor>- (6 * pi / 25) / (2 * pi)\<rfloor> = - 1"
  proof -
    have "- (6 * pi / 25) / (2 * pi) = - (3 / 25)" by simp
    then show ?thesis by simp
  qed
  have n: "normalize_angle (- (6 * pi / 25)) = 44 * pi / 25"
    unfolding normalize_angle_floor f by simp
  have q: "44 * pi / 25 / (pi / 3) = 132 / 25" by simp
  show ?thesis
    unfolding selectedIndex_def index_of_rotation_def n anglePerItem_six
    by (simp add: js_div_def q js_round_def wrap_index_def js_rem_int_def smod_int_alt_def)
qed


lemma trigger_clears:
  "trigger_effect six_sets False (released_full_turn, initial_fade six_sets None)
   = (released_full_turn\<lparr>dragStartIndexRef := None\<rparr>, initial_fade six_sets None)"
proof -
  have l: "length six_sets = 6" by (simp add: six_sets_def)
  have r: "ringRotation released_full_turn = 0" "targetRotation released_full_turn = - (2 * pi)"
    "isDragging released_full_turn = False" "dragStartIndexRef released_full_turn = Some 0"
    by (simp_all add: released_full_turn_def initial_ring_def)
  show ?thesis
    unfolding trigger_effect_def Let_def fst_conv snd_conv l r index_at_rest index_after_full_turn
    using settled_full_turn
    by (simp add: transition_trigger_def Let_def r l js_eq_def wrap_index_def js_rem_int_def
        smod_int_alt_def)
qed

lemma trigger_fires:
  "snd (trigger_effect six_sets False
          (animate_ring (released_full_turn\<lparr>dragStartIndexRef := None\<rparr>),
           initial_fade six_sets None))
   = (initial_fade six_sets None)\<lparr>pendingSet := Some ''f'', highlightSet := ''f'',
        revealReady := False, fadePhase := Loading\<rparr>"
proof -
  let ?r = "animate_ring (released_full_turn\<lparr>dragStartIndexRef := None\<rparr>)"
  have l: "length six_sets = 6" by (simp add: six_sets_def)
  have r: "ringRotation ?r = - (6 * pi / 25)"
    "isDragging ?r = False" "dragStartIndexRef ?r = None"
    using first_frame_after_full_turn by (simp_all add: animate_ring_def released_full_turn_def initial_ring_def)
  have s: "image_set_at six_sets 5 = Some \<lparr>name = ''f'', images = []\<rparr>"
    by (simp add: image_set_at_def six_sets_def)
  have f: "initial_fade six_sets None
           = \<lparr>activeSet = ''a'', pendingSet = None, fadePhase = Idle, highlightSet = ''a'',
              revealReady = False\<rparr>"
    by (simp add: initial_fade_def resolveInitialSet_def six_sets_def)
  show ?thesis
    unfolding trigger_effect_def Let_def fst_conv snd_conv l r index_after_one_frame
    by (simp add: transition_trigger_def Let_def r s f startTransition_def)
qed

text \<open>
  Claim C3 on the code. A drag starts on the selected item 0 of six at rotation 0, turns
  the target by a full circle (four quarter turns of the pointer around the centre) and
  is released; the ring has not moved yet. \<^verbatim>\<open>isRotationSettled\<close> holds, because it
  compares \<open>min diff (2\<pi> - diff)\<close> with the threshold and \<open>diff\<close> is \<open>2\<pi>\<close>; the final index
  is the start index 0, so the effect clears the start index and starts nothing. One frame
  later the ring is at \<open>-0.24\<pi>\<close>, \<^verbatim>\<open>selectedIndex\<close> is 5, and the effect, now without a
  start index, starts the transition to the sixth set.
\<close>

theorem full_turn_drag_starts_transition:
  "handlePointerUp (anglePerItem 6)
     (pointer_moves (Some (0, 0)) [(- 100, 0), (0, - 100), (100, 0), (0, 100)]
        (handlePointerDown True True 0 (Some (0, 0)) 0 100 True (Some 0) initial_ring))
     = Some released_full_turn
   \<and> selectedIndex 6 (ringRotation initial_ring) = Some 0
   \<and> dragStartIndexRef released_full_turn = Some 0
   \<and> finalSelectedIndex 6 (targetRotation released_full_turn) = Some 0
   \<and> isRotationSettled False (targetRotation released_full_turn) (ringRotation released_full_turn)
   \<and> trigger_effect six_sets False (released_full_turn, initial_fade six_sets None)
       = (released_full_turn\<lparr>dragStartIndexRef := None\<rparr>, initial_fade six_sets None)
   \<and> snd (trigger_effect six_sets False
          (animate_ring (released_full_turn\<lparr>dragStartIndexRef := None\<rparr>),
           initial_fade six_sets None))
       = (initial_fade six_sets None)\<lparr>pendingSet := Some ''f'', highlightSet := ''f'',
            revealReady := False, fadePhase := Loading\<rparr>"
proof -
  have 1: "handlePointerUp (anglePerItem 6)
     (pointer_moves (Some (0, 0)) [(- 100, 0), (0, - 100), (100, 0), (0, 100)]
        (handlePointerDown True True 0 (Some (0, 0)) 0 100 True (Some 0) initial_ring))
     = Some released_full_turn"
    by (rule full_turn_up)
  have 2: "selectedIndex 6 (ringRotation initial_ring) = Some 0"
    using index_at_rest by (simp add: initial_ring_def)
  have 3: "dragStartIndexRef released_full_turn = Some 0"
    by (simp add: released_full_turn_def)
  have 4: "finalSelectedIndex 6 (targetRotation released_full_turn) = Some 0"
    using index_after_full_turn by (simp add: released_full_turn_def)
  have 5: "isRotationSettled False (targetRotation released_full_turn) (ringRotation released_full_turn)"
    using settled_full_turn by (simp add: released_full_turn_def initial_ring_def)
  show ?thesis using 1 2 3 4 5 trigger_clears trigger_fires by (intro conjI)
qed

theorem full_turn_drag_starts_transition_witness:
  "fadePhase (snd (trigger_effect six_sets False
          (animate_ring (released_full_turn\<lparr>dragStartIndexRef := None\<rparr>),
           initial_fade six_sets None))) = Loading
   \<and> pendingSet (snd (trigger_effect six_sets False
          (animate_ring (released_full_turn\<lparr>dragStartIndexRef := None\<rparr>),
           initial_fade six_sets None))) = Some ''f''"
  using full_turn_drag_starts_transition by simp

section \<open>The transition machine\<close>

lemma resolveInitialSet_known:
  "imageSets \<noteq> [] \<Longrightarrow> known imageSets (resolveInitialSet imageSets initialSet)"
  by (auto simp: known_def resolveInitialSet_def Let_def list_ex_iff find_Some_iff
           split: list.splits option.splits)

lemma image_set_at_known:
  "image_set_at imageSets i = Some s \<Longrightarrow> known imageSets (name s)"
  by (auto simp: known_def image_set_at_def list_ex_iff split: if_splits)

lemma exists_effect_known:
  "imageSets \<noteq> [] \<longrightarrow> known imageSets (activeSet cur) \<Longrightarrow>
   exists_effect imageSets initialSet cur acc = acc"
  by (auto simp: exists_effect_def known_def)

lemma commit_known:
  assumes "imageSets \<noteq> [] \<longrightarrow> known imageSets (activeSet cur)"
  shows "commit imageSets initialSet old cur =
     (let fade_deps = (fadePhase old \<noteq> fadePhase cur \<or> pendingSet old \<noteq> pendingSet cur);
          a2 = (if fade_deps then fade_effect cur cur else cur);
          a3 = (if fade_deps then preload_effect cur a2 else a2)
      in if activeSet old \<noteq> activeSet cur then highlight_effect cur a3 else a3)"
  using assms by (simp add: commit_def exists_effect_known Let_def)

lemma aux_inv_mount: "aux_inv imageSets (initial_machine imageSets initialSet)"
  by (simp add: aux_inv_def initial_machine_def resolveInitialSet_known)

lemma aux_inv_event:
  assumes "aux_inv imageSets c"
  shows "aux_inv imageSets (handle_event imageSets e c)"
proof (cases e)
  case (StartTransition i)
  show ?thesis
  proof (cases "image_set_at imageSets i")
    case None
    then show ?thesis using assms StartTransition by (simp add: handle_event_def)
  next
    case (Some s)
    have k: "known imageSets (name s)" using Some by (rule image_set_at_known)
    show ?thesis using assms StartTransition Some k
      by (auto simp: handle_event_def startTransition_def aux_inv_def truthy_def)
  qed
next
  case PreloadDone
  then show ?thesis using assms
    by (auto simp: handle_event_def aux_inv_def truthy_def split: option.splits)
next
  case Timeout
  then show ?thesis using assms
    by (auto simp: handle_event_def aux_inv_def truthy_def split: option.splits fade_phase.splits)
next
  case CanvasReady
  then show ?thesis using assms
    by (auto simp: handle_event_def aux_inv_def)
qed

lemma aux_inv_commit:
  assumes "aux_inv imageSets c"
  shows "aux_inv imageSets (commit imageSets initialSet old c)"
proof -
  have k: "imageSets \<noteq> [] \<longrightarrow> known imageSets (activeSet c)" using assms by (simp add: aux_inv_def)
  show ?thesis
    unfolding commit_known[OF k]
    using assms
    by (cases "fadePhase c")
       (auto simp: aux_inv_def Let_def fade_effect_def preload_effect_def highlight_effect_def
                   truthy_def split: option.splits)
qed


lemma step_inv_mount: "step_inv (initial_machine imageSets initialSet) (initial_machine imageSets initialSet)"
  by (simp add: step_inv_def initial_machine_def)

lemma commit_fields:
  assumes "imageSets \<noteq> [] \<longrightarrow> known imageSets (activeSet c)"
  shows "fadePhase (commit imageSets initialSet old c) = fadePhase c"
    and "pendingSet (commit imageSets initialSet old c)
         = (case pendingSet c of
              None \<Rightarrow> None
            | Some p \<Rightarrow>
                if (fadePhase old \<noteq> fadePhase c \<or> pendingSet old \<noteq> pendingSet c)
                   \<and> fadePhase c = Holding \<and> p \<noteq> []
                then None else Some p)"
    and "activeSet (commit imageSets initialSet old c)
         = (case pendingSet c of
              None \<Rightarrow> activeSet c
            | Some p \<Rightarrow>
                if (fadePhase old \<noteq> fadePhase c \<or> pendingSet old \<noteq> pendingSet c)
                   \<and> fadePhase c = Holding \<and> p \<noteq> []
                then p else activeSet c)"
  unfolding commit_known[OF assms]
  by (cases "fadePhase c";
      simp add: Let_def fade_effect_def preload_effect_def highlight_effect_def
           split: option.splits)+

lemma step_inv_commit:
  assumes "aux_inv imageSets c" "step_inv old c"
  shows "step_inv c (commit imageSets initialSet old c)"
proof -
  have k: "imageSets \<noteq> [] \<longrightarrow> known imageSets (activeSet c)" using assms by (simp add: aux_inv_def)
  note cf = commit_fields[OF k, of initialSet old]
  have e: "pendingSet c = Some [] \<longrightarrow> fadePhase c = Loading" using assms(1) by (simp add: aux_inv_def)
  have i5: "fadePhase c = Holding \<and> pendingSet c \<noteq> None \<longrightarrow> fadePhase old = FadingToBlack"
    using assms(2) unfolding step_inv_def by blast
  show ?thesis
  proof (cases "pendingSet c")
    case None
    then show ?thesis unfolding step_inv_def cf by simp
  next
    case (Some p)
    show ?thesis
    proof (cases "(fadePhase old \<noteq> fadePhase c \<or> pendingSet old \<noteq> pendingSet c)
                   \<and> fadePhase c = Holding \<and> p \<noteq> []")
      case True
      then show ?thesis unfolding step_inv_def cf using Some by simp
    next
      case False
      have "fadePhase c \<noteq> Holding"
      proof
        assume h: "fadePhase c = Holding"
        then have "p \<noteq> []" using e Some by auto
        moreover have "fadePhase old = FadingToBlack" using i5 h Some by simp
        ultimately show False using False h by simp
      qed
      then show ?thesis unfolding step_inv_def cf using Some False by simp
    qed
  qed
qed

lemma settled_holding_cleared:
  assumes "aux_inv imageSets c" "step_inv old c" "commit imageSets initialSet old c = c"
    and "fadePhase c = Holding"
  shows "pendingSet c = None"
proof (rule ccontr)
  assume n: "pendingSet c \<noteq> None"
  then obtain p where p: "pendingSet c = Some p" by auto
  have k: "imageSets \<noteq> [] \<longrightarrow> known imageSets (activeSet c)" using assms by (simp add: aux_inv_def)
  have ne: "p \<noteq> []" using assms(1,4) p by (auto simp: aux_inv_def)
  have o: "fadePhase old = FadingToBlack" using assms(2,4) n unfolding step_inv_def by blast
  have "pendingSet (commit imageSets initialSet old c) = None"
    unfolding commit_fields[OF k]
    using o assms(4) p ne by simp
  then show False using assms(3) n by simp
qed

lemma step_inv_event:
  assumes "aux_inv imageSets c" "step_inv old c" "commit imageSets initialSet old c = c"
  shows "step_inv c (handle_event imageSets e c)"
proof -
  note h = settled_holding_cleared[OF assms]
  show ?thesis
  proof (cases e)
    case (StartTransition i)
    then show ?thesis using assms(1) h
      by (cases "fadePhase c")
         (auto simp: handle_event_def startTransition_def step_inv_def aux_inv_def
               split: option.splits)
  next
    case PreloadDone
    then show ?thesis using assms(1) h
      by (auto simp: handle_event_def step_inv_def aux_inv_def)
  next
    case Timeout
    then show ?thesis using assms(1) h
      by (auto simp: handle_event_def step_inv_def aux_inv_def
               split: option.splits fade_phase.splits)
  next
    case CanvasReady
    then show ?thesis using assms(1) h
      by (auto simp: handle_event_def step_inv_def)
  qed
qed

lemma reachable_inv:
  assumes "reachable imageSets initialSet cfg"
  shows "aux_inv imageSets (snd cfg) \<and> step_inv (fst cfg) (snd cfg)"
  using assms
proof (induction rule: reachable.induct)
  case mount
  show ?case by (simp add: aux_inv_mount step_inv_mount)
next
  case (effects old cur)
  then have "aux_inv imageSets cur" "step_inv old cur" by simp_all
  then show ?case
    using aux_inv_commit step_inv_commit by simp
next
  case (event old cur e)
  then have i: "aux_inv imageSets cur" "step_inv old cur" by simp_all
  show ?case
    using aux_inv_event[OF i(1)] step_inv_event[OF i event.hyps(2)] by simp
qed

text \<open>
  Claim C4. For every render \<open>cur\<close> that can occur, with \<open>old\<close> the render before it:
  \<^verbatim>\<open>pendingSet\<close> is non-null only in the phases loading, fading-to-black and holding; it
  goes from a value to null only between two renders in the holding phase, and then
  \<^verbatim>\<open>activeSet\<close> is that value; \<^verbatim>\<open>activeSet\<close> changes in no other way; \<^verbatim>\<open>pendingSet\<close> is
  set only from idle into loading; and a render in holding with \<^verbatim>\<open>pendingSet\<close> still set
  is the first one after fading-to-black, so it is cleared on entry to holding.
\<close>

theorem pending_set_lifecycle:
  assumes "reachable imageSets initialSet (old, cur)"
  shows "(pendingSet cur \<noteq> None \<longrightarrow>
            fadePhase cur = Loading \<or> fadePhase cur = FadingToBlack \<or> fadePhase cur = Holding)
       \<and> (\<forall>p. pendingSet old = Some p \<and> pendingSet cur = None \<longrightarrow>
            fadePhase old = Holding \<and> fadePhase cur = Holding \<and> activeSet cur = p)
       \<and> (activeSet cur \<noteq> activeSet old \<longrightarrow>
            pendingSet old = Some (activeSet cur) \<and> pendingSet cur = None \<and> fadePhase old = Holding)
       \<and> (pendingSet old = None \<and> pendingSet cur \<noteq> None \<longrightarrow>
            fadePhase old = Idle \<and> fadePhase cur = Loading)
       \<and> (fadePhase cur = Holding \<and> pendingSet cur \<noteq> None \<longrightarrow> fadePhase old = FadingToBlack)"
proof -
  have a: "aux_inv imageSets cur" and s: "step_inv old cur"
    using reachable_inv[OF assms] by simp_all
  have 1: "pendingSet cur \<noteq> None \<longrightarrow>
            fadePhase cur = Loading \<or> fadePhase cur = FadingToBlack \<or> fadePhase cur = Holding"
    using a unfolding aux_inv_def by (elim conjE)
  show ?thesis
    using 1 s unfolding step_inv_def by (intro conjI) (elim conjE, assumption)+
qed


theorem pending_set_lifecycle_witness:
  "reachable six_sets None
     (\<lparr>activeSet = ''a'', pendingSet = Some ''b'', fadePhase = Holding, highlightSet = ''b'',
       revealReady = True, fadeTimer = None, preloadPending = False\<rparr>,
      \<lparr>activeSet = ''b'', pendingSet = None, fadePhase = Holding, highlightSet = ''b'',
       revealReady = True, fadeTimer = Some FadingOut, preloadPending = False\<rparr>)
   \<and> activeSet \<lparr>activeSet = ''b'', pendingSet = None, fadePhase = Holding, highlightSet = ''b'',
       revealReady = True, fadeTimer = Some FadingOut, preloadPending = False\<rparr> = ''b''"
proof -
  let ?m0 = "\<lparr>activeSet = ''a'', pendingSet = None, fadePhase = Idle, highlightSet = ''a'',
       revealReady = False, fadeTimer = None, preloadPending = False\<rparr>"
  let ?m1 = "\<lparr>activeSet = ''a'', pendingSet = Some ''b'', fadePhase = Loading, highlightSet = ''b'',
       revealReady = False, fadeTimer = None, preloadPending = False\<rparr>"
  let ?m2 = "\<lparr>activeSet = ''a'', pendingSet = Some ''b'', fadePhase = Loading, highlightSet = ''b'',
       revealReady = False, fadeTimer = None, preloadPending = True\<rparr>"
  let ?m3 = "\<lparr>activeSet = ''a'', pendingSet = Some ''b'', fadePhase = FadingToBlack, highlightSet = ''b'',
       revealReady = True, fadeTimer = None, preloadPending = False\<rparr>"
  let ?m4 = "\<lparr>activeSet = ''a'', pendingSet = Some ''b'', fadePhase = FadingToBlack, highlightSet = ''b'',
       revealReady = True, fadeTimer = Some Holding, preloadPending = False\<rparr>"
  let ?m5 = "\<lparr>activeSet = ''a'', pendingSet = Some ''b'', fadePhase = Holding, highlightSet = ''b'',
       revealReady = True, fadeTimer = None, preloadPending = False\<rparr>"
  let ?m6 = "\<lparr>activeSet = ''b'', pendingSet = None, fadePhase = Holding, highlightSet = ''b'',
       revealReady = True, fadeTimer = Some FadingOut, preloadPending = False\<rparr>"
  note ev = handle_event_def startTransition_def image_set_at_def six_sets_def
  note co = commit_def exists_effect_def fade_effect_def preload_effect_def highlight_effect_def
            truthy_def Let_def six_sets_def
  have i: "initial_machine six_sets None = ?m0"
    by (simp add: initial_machine_def resolveInitialSet_def six_sets_def)
  have r0: "reachable six_sets None (?m0, ?m0)"
    using reachable.mount[of six_sets None] by (simp only: i)
  have r1: "reachable six_sets None (?m0, ?m1)"
    using reachable.event[OF r0, of "StartTransition 1"] by (simp add: ev co)
  have r2: "reachable six_sets None (?m1, ?m2)"
    using reachable.effects[OF r1] by (simp add: co)
  have r3: "reachable six_sets None (?m2, ?m3)"
    using reachable.event[OF r2, of PreloadDone] by (simp add: ev co)
  have r4: "reachable six_sets None (?m3, ?m4)"
    using reachable.effects[OF r3] by (simp add: co)
  have r5: "reachable six_sets None (?m4, ?m5)"
    using reachable.event[OF r4, of Timeout] by (simp add: ev co)
  have r6: "reachable six_sets None (?m5, ?m6)"
    using reachable.effects[OF r5] by (simp add: co)
  have "activeSet ?m6 = ''b''"
    using pending_set_lifecycle[OF r6] by simp
  then show ?thesis using r6 by simp
qed

end
